theory Spec2Isabelle
  imports Complex_Main
begin

section \<open>Hall effect of a tight-binding band: the numeric pipeline of \<open>nqft/hall_effect.py\<close>\<close>

text \<open>
  The program computes with numpy arrays of IEEE-754 doubles. The embedding reads an
  \<open>n\<close>-dimensional array as a nested list (a list of rows, a list of slices), and the
  entries of the grids, energies, derivatives, spectral weights and conductivities as
  the real numbers that their formulas denote: there \<open>+\<close>, \<open>*\<close>, \<open>cos\<close> are the exact
  operations. Rounding is written out where an outcome of the program depends on it:
  the samples that \<open>get_spectral_weight\<close> compares with \<open>\<pi>\<close>, and the comparison, are
  those of doubles; \<open>norm\<close> is the double nearest \<open>1 / R\<^sup>2\<close>; \<open>get_density\<close> rounds each
  operation to a long double; the quotient of \<open>get_hall_nb\<close> is computed on doubles with
  their zero, infinities and \<open>nan\<close>; and one energy value is evaluated in binary64.

  Elementwise operations of two arrays pair up the entries of operands of one shape,
  which is the only case the class \<open>Model\<close> produces; numpy's broadcasting of other
  shapes is not modelled, and a function of the model that meets such operands stops
  with \<open>Unmodelled_shapes\<close>.
\<close>

subsection \<open>Arrays\<close>

type_synonym array1 = "real list"
type_synonym array2 = "real list list"
type_synonym array3 = "real list list list"

datatype error =
    ZeroDivisionError
  | ValueError
  | IndexError
  | UnboundLocalError
  | Unmodelled_shapes
  | Unmodelled_nonfinite

definition same_shape :: "'a list list \<Rightarrow> 'b list list \<Rightarrow> bool" where
  "same_shape a b = (map length a = map length b)"

definition np_cos :: "array2 \<Rightarrow> array2" where
  "np_cos a = map (map cos) a"

definition np_sin :: "array2 \<Rightarrow> array2" where
  "np_sin a = map (map sin) a"

definition np_add :: "array2 \<Rightarrow> array2 \<Rightarrow> array2" where
  "np_add a b = map2 (map2 (+)) a b"

definition np_sub :: "array2 \<Rightarrow> array2 \<Rightarrow> array2" where
  "np_sub a b = map2 (map2 (-)) a b"

definition np_mul :: "array2 \<Rightarrow> array2 \<Rightarrow> array2" where
  "np_mul a b = map2 (map2 (*)) a b"

definition np_pow :: "array2 \<Rightarrow> nat \<Rightarrow> array2" where
  "np_pow a n = map (map (\<lambda>x. x ^ n)) a"

text \<open>A Python scalar times an array, and an array minus a scalar.\<close>

definition scal_mul :: "real \<Rightarrow> array2 \<Rightarrow> array2" where
  "scal_mul s a = map (map (\<lambda>x. s * x)) a"

definition sub_scal :: "array2 \<Rightarrow> real \<Rightarrow> array2" where
  "sub_scal a s = map (map (\<lambda>x. x - s)) a"

text \<open>\<open>arr.sum()\<close> of a two-dimensional array.\<close>

definition np_sum :: "array2 \<Rightarrow> real" where
  "np_sum a = sum_list (map sum_list a)"

subsection \<open>\<open>get_energies\<close>\<close>

text \<open>The dictionary \<open>dEs\<close> has five fixed keys; it is a record of five arrays.\<close>

record derivs =
  dE_dx :: array2
  ddE_dxx :: array2
  dE_dy :: array2
  ddE_dyy :: array2
  ddE_dxdy :: array2

type_synonym hoppings = "real \<times> real \<times> real"

definition get_energies ::
  "hoppings \<Rightarrow> array2 \<Rightarrow> array2 \<Rightarrow> array1 \<Rightarrow> error + (array3 \<times> derivs)" where
  "get_energies hops kx ky mus =
     (if \<not> same_shape kx ky then Inl Unmodelled_shapes
      else case hops of (t, tp, tpp) \<Rightarrow>
        let a = scal_mul (- 2 * t) (np_add (np_cos kx) (np_cos ky));
            b = scal_mul (- 2 * tp)
                  (np_add (np_cos (np_add kx ky)) (np_cos (np_sub kx ky)));
            c = scal_mul (- 2 * tpp)
                  (np_add (np_cos (scal_mul 2 kx)) (np_cos (scal_mul 2 ky)));
            E = map (\<lambda>i. sub_scal (np_add (np_add a b) c) i) mus;
            dEs = \<lparr>
              dE_dx = scal_mul 2
                (np_add
                  (np_add (scal_mul t (np_sin kx))
                     (scal_mul tp (np_add (np_sin (np_sub kx ky)) (np_sin (np_add kx ky)))))
                  (scal_mul (2 * tpp) (np_sin (scal_mul 2 kx)))),
              ddE_dxx = scal_mul 2
                (np_add
                  (np_add (scal_mul t (np_cos kx))
                     (scal_mul tp (np_add (np_cos (np_sub kx ky)) (np_cos (np_add kx ky)))))
                  (scal_mul (4 * tpp) (np_cos (scal_mul 2 kx)))),
              dE_dy = scal_mul 2
                (np_add
                  (np_add (scal_mul t (np_sin ky))
                     (scal_mul tp (np_sub (np_sin (np_add kx ky)) (np_sin (np_sub kx ky)))))
                  (scal_mul (2 * tpp) (np_sin (scal_mul 2 ky)))),
              ddE_dyy = scal_mul 2
                (np_add
                  (np_add (scal_mul t (np_cos ky))
                     (scal_mul tp (np_add (np_cos (np_add kx ky)) (np_cos (np_sub kx ky)))))
                  (scal_mul (4 * tpp) (np_cos (scal_mul 2 ky)))),
              ddE_dxdy = scal_mul (2 * tp)
                (np_sub (np_cos (np_add kx ky)) (np_cos (np_sub kx ky)))
            \<rparr>
        in Inr (E, dEs))"

text \<open>
  The band of the specification, \<open>E0(kx,ky) = -2t(cos kx + cos ky) - 2t'(cos(kx+ky) +
  cos(kx-ky)) - 2t''(cos 2kx + cos 2ky)\<close>, written from the specification's formula to be
  compared with what \<open>get_energies\<close> computes.
\<close>

definition spec_E0 :: "hoppings \<Rightarrow> real \<Rightarrow> real \<Rightarrow> real" where
  "spec_E0 hops x y =
     (case hops of (t, tp, tpp) \<Rightarrow>
        - 2 * t * (cos x + cos y) - 2 * tp * (cos (x + y) + cos (x - y))
        - 2 * tpp * (cos (2 * x) + cos (2 * y)))"

subsection \<open>The library functions the program calls\<close>

text \<open>
  \<open>numpy.linspace(start, stop, num)\<close>: \<open>num\<close> evenly spaced samples with both end points,
  \<open>arange(0, num) * step + start\<close> with the last sample set to \<open>stop\<close>; a negative
  \<open>num\<close> raises \<open>ValueError\<close>.
\<close>

definition linspace :: "real \<Rightarrow> real \<Rightarrow> int \<Rightarrow> error + array1" where
  "linspace start stop num =
     (if num < 0 then Inl ValueError
      else
        let n = nat num;
            delta = stop - start;
            step = (if 0 < num - 1 then delta / of_int (num - 1) else delta);
            y = map (\<lambda>i. real i * step + start) [0..<n]
        in Inr (if 1 < num then y[n - 1 := stop] else y))"

text \<open>
  \<open>numpy.meshgrid(x, y)\<close> with the default \<open>xy\<close> indexing: both results have
  \<open>len(y)\<close> rows and \<open>len(x)\<close> columns, \<open>X[i][j] = x[j]\<close> and \<open>Y[i][j] = y[i]\<close>.
\<close>

definition meshgrid :: "array1 \<Rightarrow> array1 \<Rightarrow> array2 \<times> array2" where
  "meshgrid x y = (replicate (length y) x, map (\<lambda>v. replicate (length x) v) y)"

text \<open>
  \<open>numpy.arange(start, stop, step)\<close>: the values \<open>start + i * step\<close> for
  \<open>0 \<le> i < ceil((stop - start) / step)\<close>; a zero step raises.
\<close>

definition arange :: "real \<Rightarrow> real \<Rightarrow> real \<Rightarrow> error + array1" where
  "arange start stop step =
     (if step = 0 then Inl ZeroDivisionError
      else Inr (map (\<lambda>i. start + real i * step) [0..<nat \<lceil>(stop - start) / step\<rceil>]))"

text \<open>
  Python's \<open>round(x, ndigits)\<close> on a float: the nearest multiple of \<open>10 ^ (- ndigits)\<close>,
  a tie going to the even one.
\<close>

definition round_half_even :: "real \<Rightarrow> int" where
  "round_half_even x =
     (let f = \<lfloor>x\<rfloor>; d = x - of_int f
      in if d < 1 / 2 then f else if 1 / 2 < d then f + 1
         else if even f then f else f + 1)"

definition py_round :: "real \<Rightarrow> nat \<Rightarrow> real" where
  "py_round x ndigits = of_int (round_half_even (x * 10 ^ ndigits)) / 10 ^ ndigits"

text \<open>\<open>scipy.constants.e\<close>, the elementary charge in coulomb (\<open>1.602176634e-19\<close>).\<close>

definition e_charge :: real where
  "e_charge = 1602176634 / 10 ^ 28"

subsection \<open>Floating-point numbers\<close>

text \<open>
  The nearest number with \<open>p\<close> significant bits, a tie going to the even significand.
  The spacing of these numbers around \<open>x\<close> is \<open>2 ^ (e - p + 1)\<close> for the exponent
  \<open>e = \<lfloor>log\<^sub>2 |x|\<rfloor>\<close>; below \<open>2 ^ emin\<close> it stays that of the smallest normal numbers
  (gradual underflow), so that a magnitude of at most half the smallest subnormal number
  becomes zero. The upper end of the range is written out where a value can reach it.
\<close>

definition round_float :: "nat \<Rightarrow> int \<Rightarrow> real \<Rightarrow> real" where
  "round_float p emin x =
     (if x = 0 then 0
      else let e = max \<lfloor>log 2 \<bar>x\<bar>\<rfloor> emin; ulp = 2 powr of_int (e - int p + 1)
           in of_int (round_half_even (x / ulp)) * ulp)"

text \<open>
  A double has 53 significant bits and normal numbers from \<open>2 ^ (- 1022)\<close> on.
  \<open>numpy.float128\<close> is the \<open>long double\<close> of C, on x86-64 the 80-bit extended format:
  64 significant bits and normal numbers from \<open>2 ^ (- 16382)\<close> on.
\<close>

definition float64 :: "real \<Rightarrow> real" where
  "float64 x = round_float 53 (- 1022) x"

definition float128 :: "real \<Rightarrow> real" where
  "float128 x = round_float 64 (- 16382) x"





text \<open>
  \<open>scipy.constants.pi\<close> is \<open>math.pi\<close>, the double nearest \<open>\<pi>\<close>
  (\<open>3.141592653589793115997963...\<close>).
\<close>

definition np_pi :: real where
  "np_pi = 884279719003555 / 2 ^ 48"

text \<open>
  \<open>numpy.linspace\<close> as it computes on doubles: \<open>step = delta / div\<close> is rounded, and so
  are the products \<open>i * step\<close> and the sums with \<open>start\<close>; the last sample is set to
  \<open>stop\<close>. (The branch for a step that rounds to zero is never taken between \<open>-\<pi>\<close> and
  \<open>\<pi>\<close>.)
\<close>

definition linspace_float64 :: "real \<Rightarrow> real \<Rightarrow> int \<Rightarrow> error + array1" where
  "linspace_float64 start stop num =
     (if num < 0 then Inl ValueError
      else
        let n = nat num;
            delta = float64 (stop - start);
            step = (if 0 < num - 1 then float64 (delta / of_int (num - 1)) else delta);
            y = map (\<lambda>i. float64 (float64 (real i * step) + start)) [0..<n]
        in Inr (if 1 < num then y[n - 1 := stop] else y))"

subsection \<open>\<open>get_spectral_weight\<close>\<close>

text \<open>
  \<open>E.shape[1]\<close> of the array built from an empty list of slices raises \<open>IndexError\<close>.
  The two loops over \<open>range(dim)\<close> fill \<open>diag_line\<close> and, when \<open>filter\<close> (here \<open>filter_flag\<close>) is set,
  \<open>diag_filter\<close>: they compare doubles, the sum of two magnitudes of the samples
  \<open>buffer\<close> with the double \<open>pi\<close>. The complex array \<open>A\<close> is \<open>-1 / pi\<close> times the reciprocals
  \<open>1 / (omega + eta * 1j - e)\<close>; where such a denominator is zero numpy stores
  \<open>inf\<close>/\<open>nan\<close>, which the model reports as \<open>Unmodelled_nonfinite\<close>.
\<close>

definition get_spectral_weight ::
  "real \<Rightarrow> real \<Rightarrow> array3 \<Rightarrow> bool \<Rightarrow> error + (array3 \<times> array2)" where
  "get_spectral_weight omega eta E filter_flag =
     (case E of
        [] \<Rightarrow> Inl IndexError
      | e0 # _ \<Rightarrow>
          let dim = length e0 in
          (case linspace_float64 (- np_pi) np_pi (int dim) of
             Inl err \<Rightarrow> Inl err
           | Inr buffer \<Rightarrow>
               let diag_line =
                     map (\<lambda>i. map (\<lambda>j.
                            if py_round (float64 (\<bar>buffer ! i\<bar> + \<bar>buffer ! j\<bar>)) 2
                               = py_round np_pi 2
                            then 1 else 0) [0..<dim]) [0..<dim];
                   diag_filter =
                     (if filter_flag
                      then map (\<lambda>i. map (\<lambda>j.
                             if float64 (\<bar>buffer ! i\<bar> + \<bar>buffer ! j\<bar>) \<le> np_pi
                             then 1 else 0) [0..<dim]) [0..<dim]
                      else replicate dim (replicate dim 1))
               in
                 if eta = 0 \<and> (\<exists>e \<in> set E. \<exists>row \<in> set e. omega \<in> set row)
                 then Inl Unmodelled_nonfinite
                 else if \<not> (\<forall>e \<in> set E. same_shape diag_filter e)
                 then Inl Unmodelled_shapes
                 else
                   let A = map (\<lambda>e. map (map (\<lambda>x.
                                 of_real (- 1 / pi) *
                                 (1 / (of_real omega + of_real eta * \<i> - of_real x)))) e) E
                   in Inr (map (\<lambda>a. np_mul diag_filter (map (map Im) a)) A, diag_line)))"

subsection \<open>The class \<open>Model\<close>\<close>

text \<open>
  The attributes of an instance: the field \<open>self_E\<close> is the attribute \<open>self.E\<close>, and
  so on. The attribute \<open>diamond\<close> is assigned in one branch of the constructor only.
\<close>

record Model =
  self_w :: real
  self_use_peters :: bool
  self_eta :: real
  self_norm :: real
  self_hops :: hoppings
  self_mus :: array1
  self_k_x :: array2
  self_k_y :: array2
  self_E :: array3
  self_dEs :: derivs
  self_A :: array3
  self_diamond :: "array2 option"

text \<open>
  \<open>Model.__init__\<close>. Its first argument here is the dictionary that \<open>read_fermi_arc()\<close>
  returns (label and array of each data file, in the dictionary's order), which the
  constructor reads from disk. \<open>1 / resolution**2\<close> divides Python integers, which
  gives the double nearest the quotient, and raises for \<open>resolution = 0\<close>.
\<close>

definition Model_init ::
  "(string \<times> array2) list \<Rightarrow> hoppings \<Rightarrow> real \<Rightarrow> real \<Rightarrow> real \<times> real \<times> real \<Rightarrow> int \<Rightarrow>
   bool \<Rightarrow> bool \<Rightarrow> error + Model" where
  "Model_init fermi_arcs hoppings broadening omega mus resolution use_peters use_filter =
     (if use_peters then
        (let eta' = 1 / 10;
             norm' = float64 (1 / 200 ^ 2);
             hops' = (1, - 3 / 10, 2 / 10);
             mus' = [- 13 / 10, - 1, - 75 / 100, - 4 / 10, 0]
         in case linspace (- pi) pi 200 of
              Inl err \<Rightarrow> Inl err
            | Inr k_s \<Rightarrow>
                (case meshgrid k_s k_s of (kx, ky) \<Rightarrow>
                   (case get_energies hoppings kx ky mus' of
                      Inl err \<Rightarrow> Inl err
                    | Inr (E', dEs') \<Rightarrow>
                        Inr \<lparr>self_w = omega, self_use_peters = use_peters, self_eta = eta',
                             self_norm = norm', self_hops = hops', self_mus = mus',
                             self_k_x = kx, self_k_y = ky, self_E = E', self_dEs = dEs',
                             self_A = map snd fermi_arcs, self_diamond = None\<rparr>)))
      else
        (case mus of (start, stop, step) \<Rightarrow>
           (case arange start stop step of
              Inl err \<Rightarrow> Inl err
            | Inr mus' \<Rightarrow>
                if resolution = 0 then Inl ZeroDivisionError
                else
                  (case linspace (- pi) pi resolution of
                     Inl err \<Rightarrow> Inl err
                   | Inr k_s \<Rightarrow>
                       (case meshgrid k_s k_s of (kx, ky) \<Rightarrow>
                          (case get_energies hoppings kx ky mus' of
                             Inl err \<Rightarrow> Inl err
                           | Inr (E', dEs') \<Rightarrow>
                               (case get_spectral_weight omega broadening E' use_filter of
                                  Inl err \<Rightarrow> Inl err
                                | Inr (A', diamond') \<Rightarrow>
                                    Inr \<lparr>self_w = omega, self_use_peters = use_peters,
                                         self_eta = broadening,
                                         self_norm = float64 (1 / of_int (resolution ^ 2)),
                                         self_hops = hoppings, self_mus = mus',
                                         self_k_x = kx, self_k_y = ky, self_E = E', self_dEs = dEs',
                                         self_A = A', self_diamond = Some diamond'\<rparr>)))))))"

text \<open>
  The product of a derivative array of shape \<open>(R, R)\<close> with a spectral weight of shape
  \<open>(M, R, R)\<close>, slice by slice.
\<close>

definition mul_slices :: "array2 \<Rightarrow> array3 \<Rightarrow> error + array3" where
  "mul_slices d a =
     (if a \<noteq> [] \<and> (\<forall>s \<in> set a. same_shape d s) then Inr (map (np_mul d) a)
      else Inl Unmodelled_shapes)"

text \<open>
  \<open>Model.sigma_ii\<close>. The local \<open>dE\<close> is assigned in the two branches of the
  \<open>if\<close>/\<open>elif\<close> only; its first use raises \<open>UnboundLocalError\<close> otherwise.
\<close>

definition sigma_ii :: "Model \<Rightarrow> string \<Rightarrow> error + array1" where
  "sigma_ii self variable =
     (let coeff = (- e_charge) ^ 2 * pi;
          dE = (if variable = ''x'' then Some (dE_dx (self_dEs self))
                else if variable = ''y'' then Some (dE_dy (self_dEs self))
                else None)
      in case dE of
           None \<Rightarrow> Inl UnboundLocalError
         | Some dE \<Rightarrow>
             (case mul_slices (np_pow dE 2) (map (\<lambda>a. np_pow a 2) (self_A self)) of
                Inl err \<Rightarrow> Inl err
              | Inr sigma \<Rightarrow> Inr (map (\<lambda>sig. 2 * coeff * np_sum sig) sigma)))"

text \<open>\<open>Model.sigma_ij\<close>.\<close>

definition sigma_ij :: "Model \<Rightarrow> error + array1" where
  "sigma_ij self =
     (let d = self_dEs self in
      if \<not> (same_shape (dE_dx d) (dE_dy d) \<and> same_shape (dE_dx d) (ddE_dxdy d) \<and>
             same_shape (dE_dx d) (ddE_dyy d) \<and> same_shape (dE_dx d) (ddE_dxx d))
      then Inl Unmodelled_shapes
      else
        let coeff = (- e_charge) ^ 3 * pi\<^sup>2 / 3;
            c1 = np_mul (np_mul (scal_mul (- 2) (dE_dx d)) (dE_dy d)) (ddE_dxdy d);
            c2 = np_mul (np_pow (dE_dx d) 2) (ddE_dyy d);
            c3 = np_mul (np_pow (dE_dy d) 2) (ddE_dxx d)
        in case mul_slices (np_add (np_add c1 c2) c3)
                  (map (\<lambda>a. np_pow a 3) (self_A self)) of
             Inl err \<Rightarrow> Inl err
           | Inr sigma \<Rightarrow> Inr (map (\<lambda>sig. 2 * coeff * np_sum sig) sigma))"

text \<open>
  \<open>Model.get_density\<close>. \<open>astype("float128")\<close> converts each double exactly; the product
  with \<open>beta\<close>, \<open>exp\<close>, the sum with \<open>1.0\<close> and the quotient are operations on long
  doubles, \<open>exp\<close> being taken as correctly rounded. Where \<open>exp\<close> overflows the range,
  its rounded value reaching \<open>2 ^ 16384\<close>, numpy warns and stores \<open>inf\<close>; then
  \<open>1.0 + inf\<close> is \<open>inf\<close> and \<open>2.0 / inf\<close> is \<open>0.0\<close>. The divisor is at least one.
\<close>

definition float128_overflow :: real where
  "float128_overflow = 2 powr of_int 16384"

definition fermi_dirac_entry :: "real \<Rightarrow> real \<Rightarrow> real" where
  "fermi_dirac_entry beta x =
     (let ex = float128 (exp (float128 (beta * x)))
      in if float128_overflow \<le> ex then 0 else float128 (2 / float128 (1 + ex)))"

text \<open>
  \<open>func.sum()\<close> of a two-dimensional array of long doubles: every partial sum is
  rounded. The entries are added here in row order; numpy adds them in blocks. The sums
  in the statements below are either exact or only bounded between sums of larger and of
  smaller terms, which holds in any order.
\<close>

definition float128_sum :: "array2 \<Rightarrow> real" where
  "float128_sum a = foldl (\<lambda>s x. float128 (s + x)) 0 (concat a)"

definition get_density :: "Model \<Rightarrow> array1" where
  "get_density self =
     (let beta = 100;
          fermi_dirac = map (map (map (fermi_dirac_entry beta))) (self_E self)
      in map (\<lambda>func. float128 (self_norm self * float128_sum func)) fermi_dirac)"


subsection \<open>One band energy in binary64\<close>

text \<open>
  The nearest double of a real number, a tie going to the even significand: 53
  significant bits, so the spacing of the doubles around \<open>x\<close> is
  \<open>2 ^ (\<lfloor>log\<^sub>2 |x|\<rfloor> - 52)\<close>. Subnormal numbers and overflow are left out; every value
  below is between \<open>1 / 8\<close> and \<open>4\<close> in magnitude, or zero.
\<close>

definition binary64 :: "real \<Rightarrow> real" where
  "binary64 x =
     (if x = 0 then 0
      else let e = \<lfloor>log 2 \<bar>x\<bar>\<rfloor>; ulp = 2 powr of_int (e - 52)
           in of_int (round_half_even (x / ulp)) * ulp)"

text \<open>
  Sum, difference and product of two doubles are the exact results rounded. \<open>cos\<close> is
  taken as correctly rounded, which it is at the one argument used below, \<open>0\<close>.
\<close>

definition f_add :: "real \<Rightarrow> real \<Rightarrow> real" where
  "f_add x y = binary64 (x + y)"

definition f_sub :: "real \<Rightarrow> real \<Rightarrow> real" where
  "f_sub x y = binary64 (x - y)"

definition f_mul :: "real \<Rightarrow> real \<Rightarrow> real" where
  "f_mul x y = binary64 (x * y)"

definition f_cos :: "real \<Rightarrow> real" where
  "f_cos x = binary64 (cos x)"

text \<open>
  The entry of \<open>E\<close> that \<open>get_energies\<close> computes at one grid point \<open>(kx, ky)\<close> for one
  chemical potential, operation by operation in the order of the source:
  \<open>-2 * t\<close> first, then the product with the sum of cosines, then \<open>(a + b) + c - mu\<close>.
\<close>

definition energy_binary64 :: "hoppings \<Rightarrow> real \<Rightarrow> real \<Rightarrow> real \<Rightarrow> real" where
  "energy_binary64 hops kx ky mu =
     (case hops of (t, tp, tpp) \<Rightarrow>
        let a = f_mul (f_mul (- 2) t) (f_add (f_cos kx) (f_cos ky));
            b = f_mul (f_mul (- 2) tp)
                  (f_add (f_cos (f_add kx ky)) (f_cos (f_sub kx ky)));
            c = f_mul (f_mul (- 2) tpp)
                  (f_add (f_cos (f_mul 2 kx)) (f_cos (f_mul 2 ky)))
        in f_sub (f_add (f_add a b) c) mu)"

subsection \<open>Definitions for stating the properties\<close>

text \<open>An array whose entry at \<open>(i, j)\<close> is a function of the entries of two grids there.\<close>

definition pointwise :: "(real \<Rightarrow> real \<Rightarrow> real) \<Rightarrow> array2 \<Rightarrow> array2 \<Rightarrow> array2" where
  "pointwise f kx ky = map2 (map2 f) kx ky"

text \<open>
  The samples \<open>linspace(-pi, pi, n)\<close> of the grid; the doubles
  \<open>buffer = linspace(-pi, pi, n)\<close> of \<open>get_spectral_weight\<close>, the two masks its loops
  fill, and one slice of its result.
\<close>

definition k_samples :: "nat \<Rightarrow> array1" where
  "k_samples n = (case linspace (- pi) pi (int n) of Inl _ \<Rightarrow> [] | Inr b \<Rightarrow> b)"

definition buffer_float64 :: "nat \<Rightarrow> array1" where
  "buffer_float64 n =
     (case linspace_float64 (- np_pi) np_pi (int n) of Inl _ \<Rightarrow> [] | Inr b \<Rightarrow> b)"

definition diamond_line :: "nat \<Rightarrow> array2" where
  "diamond_line n =
     map (\<lambda>i. map (\<lambda>j.
       if py_round (float64 (\<bar>buffer_float64 n ! i\<bar> + \<bar>buffer_float64 n ! j\<bar>)) 2
          = py_round np_pi 2
       then 1 else 0) [0..<n]) [0..<n]"

definition diamond_filter :: "nat \<Rightarrow> bool \<Rightarrow> array2" where
  "diamond_filter n flag =
     (if flag
      then map (\<lambda>i. map (\<lambda>j.
             if float64 (\<bar>buffer_float64 n ! i\<bar> + \<bar>buffer_float64 n ! j\<bar>) \<le> np_pi
             then 1 else 0)
             [0..<n]) [0..<n]
      else replicate n (replicate n 1))"

definition weight_slice :: "real \<Rightarrow> real \<Rightarrow> array2 \<Rightarrow> array2 \<Rightarrow> array2" where
  "weight_slice omega eta F e =
     np_mul F (map (map Im) (map (map (\<lambda>x.
        of_real (- 1 / pi) * (1 / (of_real omega + of_real eta * \<i> - of_real x)))) e))"

text \<open>
  An array of \<open>R\<close> rows and \<open>R\<close> columns; the array with the entry \<open>f i j\<close> at \<open>(i, j)\<close>;
  the sum of \<open>f\<close> over the whole grid.
\<close>

definition square :: "nat \<Rightarrow> 'a list list \<Rightarrow> bool" where
  "square R a \<longleftrightarrow> map length a = replicate R R"

definition tab :: "nat \<Rightarrow> (nat \<Rightarrow> nat \<Rightarrow> 'a) \<Rightarrow> 'a list list" where
  "tab R f = map (\<lambda>i. map (\<lambda>j. f i j) [0..<R]) [0..<R]"

definition grid_sum :: "nat \<Rightarrow> (nat \<Rightarrow> nat \<Rightarrow> real) \<Rightarrow> real" where
  "grid_sum R f = (\<Sum>i<R. \<Sum>j<R. f i j)"

definition model_shapes :: "nat \<Rightarrow> Model \<Rightarrow> bool" where
  "model_shapes R m \<longleftrightarrow>
     square R (dE_dx (self_dEs m)) \<and> square R (ddE_dxx (self_dEs m)) \<and>
     square R (dE_dy (self_dEs m)) \<and> square R (ddE_dyy (self_dEs m)) \<and>
     square R (ddE_dxdy (self_dEs m)) \<and>
     self_A m \<noteq> [] \<and> list_all (square R) (self_A m)"

text \<open>
  The values \<open>arange\<close> lists, and the arrays \<open>get_energies\<close> returns on the grid that
  \<open>meshgrid\<close> builds from the samples: \<open>k_x[i][j]\<close> is the sample \<open>j\<close> and \<open>k_y[i][j]\<close>
  the sample \<open>i\<close>.
\<close>

definition arange_list :: "real \<Rightarrow> real \<Rightarrow> real \<Rightarrow> array1" where
  "arange_list start stop step = map (\<lambda>i. start + real i * step) [0..<nat \<lceil>(stop - start) / step\<rceil>]"

definition grid_energies :: "hoppings \<Rightarrow> nat \<Rightarrow> array1 \<Rightarrow> array3" where
  "grid_energies hps R ms =
     map (\<lambda>mu. tab R (\<lambda>i j. spec_E0 hps (k_samples R ! j) (k_samples R ! i) - mu)) ms"

definition grid_derivs :: "hoppings \<Rightarrow> nat \<Rightarrow> derivs" where
  "grid_derivs hps R =
     (case hps of (t, tp, tpp) \<Rightarrow>
       \<lparr>dE_dx = tab R (\<lambda>i j. let x = k_samples R ! j; y = k_samples R ! i in
            2 * (t * sin x + tp * (sin (x - y) + sin (x + y)) + 2 * tpp * sin (2 * x))),
        ddE_dxx = tab R (\<lambda>i j. let x = k_samples R ! j; y = k_samples R ! i in
            2 * (t * cos x + tp * (cos (x - y) + cos (x + y)) + 4 * tpp * cos (2 * x))),
        dE_dy = tab R (\<lambda>i j. let x = k_samples R ! j; y = k_samples R ! i in
            2 * (t * sin y + tp * (sin (x + y) - sin (x - y)) + 2 * tpp * sin (2 * y))),
        ddE_dyy = tab R (\<lambda>i j. let x = k_samples R ! j; y = k_samples R ! i in
            2 * (t * cos y + tp * (cos (x + y) + cos (x - y)) + 4 * tpp * cos (2 * y))),
        ddE_dxdy = tab R (\<lambda>i j. let x = k_samples R ! j; y = k_samples R ! i in
            2 * tp * (cos (x + y) - cos (x - y)))\<rparr>)"

text \<open>
  The spectral weight of the specification, \<open>A = -(1/pi) * Im(1 / (omega + i*eta - E))\<close>,
  and its Fermi-arc filter, "1 inside \<open>|kx|+|ky| \<le> \<pi>\<close> rounded to 2 decimals, else 0",
  written from the specification's words in its two readings: both sides of the
  comparison rounded, or \<open>\<pi>\<close> alone.
\<close>

definition spec_spectral_weight :: "real \<Rightarrow> real \<Rightarrow> real \<Rightarrow> real" where
  "spec_spectral_weight omega eta e =
     - (1 / pi) * Im (1 / (of_real omega + \<i> * of_real eta - of_real e))"

definition spec_fermi_arc_filter :: "real \<Rightarrow> real \<Rightarrow> real" where
  "spec_fermi_arc_filter kx ky =
     (if py_round (\<bar>kx\<bar> + \<bar>ky\<bar>) 2 \<le> py_round pi 2 then 1 else 0)"

definition spec_fermi_arc_filter_pi :: "real \<Rightarrow> real \<Rightarrow> real" where
  "spec_fermi_arc_filter_pi kx ky = (if \<bar>kx\<bar> + \<bar>ky\<bar> \<le> py_round pi 2 then 1 else 0)"

section \<open>Properties\<close>

subsection \<open>Entries of elementwise results\<close>

lemma same_shape_length: "same_shape a b \<Longrightarrow> length a = length b"
  unfolding same_shape_def by (metis length_map)

lemma same_shape_row:
  "same_shape a b \<Longrightarrow> i < length a \<Longrightarrow> length (a ! i) = length (b ! i)"
  unfolding same_shape_def by (metis length_map nth_map)

lemmas np_defs =
  same_shape_def np_cos_def np_sin_def np_add_def np_sub_def np_mul_def np_pow_def
  scal_mul_def sub_scal_def np_sum_def

lemma same_shape_refl [simp]: "same_shape a a"
  by (simp add: same_shape_def)

lemma shape_map2:
  "map length a = map length b \<Longrightarrow> map length (map2 (map2 f) a b) = map length a"
proof (induction a arbitrary: b)
  case Nil
  then show ?case by simp
next
  case (Cons r a)
  then obtain s b' where b: "b = s # b'" by (cases b) auto
  with Cons show ?case by simp
qed

text \<open>
  Elementwise operations on arrays that are themselves computed entry by entry from the
  two grids fuse into one such array. The equations hold for lists of any shape.
\<close>

lemma map2_fuse:
  "map2 h (map2 f xs ys) (map2 g xs ys) = map2 (\<lambda>x y. h (f x y) (g x y)) xs ys"
  by (simp add: zip_map_map zip_same_conv_map split_def)

lemma pointwise_binop:
  "map2 (map2 h) (pointwise f kx ky) (pointwise g kx ky) =
   pointwise (\<lambda>x y. h (f x y) (g x y)) kx ky"
  unfolding pointwise_def by (simp add: map2_fuse)

lemma pointwise_unop:
  "map (map u) (pointwise f kx ky) = pointwise (\<lambda>x y. u (f x y)) kx ky"
  unfolding pointwise_def by (simp add: split_def)

lemmas pointwise_ops =
  pointwise_unop[of cos, folded np_cos_def]
  pointwise_unop[of sin, folded np_sin_def]
  pointwise_unop[of "\<lambda>x. s * x" for s, folded scal_mul_def]
  pointwise_unop[of "\<lambda>x. x - s" for s, folded sub_scal_def]
  pointwise_unop[of "\<lambda>x. x ^ n" for n, folded np_pow_def]
  pointwise_binop[of "(+)", folded np_add_def]
  pointwise_binop[of "(-)", folded np_sub_def]
  pointwise_binop[of "(*)", folded np_mul_def]

lemma map2_fst: "length xs = length ys \<Longrightarrow> map2 (\<lambda>x y. x) xs ys = xs"
  by (simp add: split_def)

lemma map2_snd: "length xs = length ys \<Longrightarrow> map2 (\<lambda>x y. y) xs ys = ys"
  by (simp add: split_def)

lemma pointwise_fst: "same_shape kx ky \<Longrightarrow> pointwise (\<lambda>x y. x) kx ky = kx"
proof (induction kx arbitrary: ky)
  case Nil
  then show ?case by (simp add: pointwise_def)
next
  case (Cons r kx)
  then obtain s ky' where ky: "ky = s # ky'"
    by (cases ky) (auto simp: same_shape_def)
  with Cons.prems have "length r = length s" "same_shape kx ky'"
    by (auto simp: same_shape_def)
  with Cons.IH[of ky'] show ?case
    by (simp add: ky pointwise_def map2_fst)
qed

lemma pointwise_snd: "same_shape kx ky \<Longrightarrow> pointwise (\<lambda>x y. y) kx ky = ky"
proof (induction kx arbitrary: ky)
  case Nil
  then show ?case by (simp add: pointwise_def same_shape_def)
next
  case (Cons r kx)
  then obtain s ky' where ky: "ky = s # ky'"
    by (cases ky) (auto simp: same_shape_def)
  with Cons.prems have "length r = length s" "same_shape kx ky'"
    by (auto simp: same_shape_def)
  with Cons.IH[of ky'] show ?case
    by (simp add: ky pointwise_def map2_snd)
qed

lemma pointwise_nth:
  "same_shape kx ky \<Longrightarrow> i < length kx \<Longrightarrow> j < length (kx ! i) \<Longrightarrow>
   pointwise f kx ky ! i ! j = f (kx ! i ! j) (ky ! i ! j)"
  using same_shape_length[of kx ky] same_shape_row[of kx ky i]
  by (simp add: pointwise_def)

lemma shape_pointwise_any: "same_shape (pointwise f kx ky) (pointwise g kx ky)"
  by (simp add: same_shape_def pointwise_def split_def)

subsection \<open>What \<open>get_energies\<close> returns\<close>

lemma get_energies_fused:
  "get_energies (t, tp, tpp) (pointwise (\<lambda>x y. x) kx ky) (pointwise (\<lambda>x y. y) kx ky) mus =
   Inr (map (\<lambda>mu. pointwise (\<lambda>x y. spec_E0 (t, tp, tpp) x y - mu) kx ky) mus,
        \<lparr>dE_dx = pointwise (\<lambda>x y. 2 * (t * sin x + tp * (sin (x - y) + sin (x + y))
                                        + 2 * tpp * sin (2 * x))) kx ky,
         ddE_dxx = pointwise (\<lambda>x y. 2 * (t * cos x + tp * (cos (x - y) + cos (x + y))
                                        + 4 * tpp * cos (2 * x))) kx ky,
         dE_dy = pointwise (\<lambda>x y. 2 * (t * sin y + tp * (sin (x + y) - sin (x - y))
                                        + 2 * tpp * sin (2 * y))) kx ky,
         ddE_dyy = pointwise (\<lambda>x y. 2 * (t * cos y + tp * (cos (x + y) + cos (x - y))
                                        + 4 * tpp * cos (2 * y))) kx ky,
         ddE_dxdy = pointwise (\<lambda>x y. 2 * tp * (cos (x + y) - cos (x - y))) kx ky\<rparr>)"
  by (simp add: get_energies_def shape_pointwise_any pointwise_ops spec_E0_def Let_def)

lemma get_energies_pointwise:
  assumes "same_shape kx ky"
  shows "get_energies (t, tp, tpp) kx ky mus =
   Inr (map (\<lambda>mu. pointwise (\<lambda>x y. spec_E0 (t, tp, tpp) x y - mu) kx ky) mus,
        \<lparr>dE_dx = pointwise (\<lambda>x y. 2 * (t * sin x + tp * (sin (x - y) + sin (x + y))
                                        + 2 * tpp * sin (2 * x))) kx ky,
         ddE_dxx = pointwise (\<lambda>x y. 2 * (t * cos x + tp * (cos (x - y) + cos (x + y))
                                        + 4 * tpp * cos (2 * x))) kx ky,
         dE_dy = pointwise (\<lambda>x y. 2 * (t * sin y + tp * (sin (x + y) - sin (x - y))
                                        + 2 * tpp * sin (2 * y))) kx ky,
         ddE_dyy = pointwise (\<lambda>x y. 2 * (t * cos y + tp * (cos (x + y) + cos (x - y))
                                        + 4 * tpp * cos (2 * y))) kx ky,
         ddE_dxdy = pointwise (\<lambda>x y. 2 * tp * (cos (x + y) - cos (x - y))) kx ky\<rparr>)"
proof -
  have "get_energies (t, tp, tpp) kx ky mus =
        get_energies (t, tp, tpp) (pointwise (\<lambda>x y. x) kx ky) (pointwise (\<lambda>x y. y) kx ky) mus"
    by (simp only: pointwise_fst[OF assms] pointwise_snd[OF assms])
  then show ?thesis by (simp only: get_energies_fused)
qed

lemma get_energies_Inr_shape:
  "get_energies hops kx ky mus = Inr r \<Longrightarrow> same_shape kx ky"
  by (simp add: get_energies_def split: if_splits)

subsection \<open>The derivative of the band along \<open>kx\<close>\<close>

lemma sin_minus_self_bound: "\<bar>sin (x::real) - x\<bar> \<le> \<bar>x\<bar> ^ 3 / 6"
  using Maclaurin_sin_bound[of x 3]
  by (simp add: sin_coeff_def numeral_eq_Suc fact_numeral field_simps)

lemma sinc_bound:
  assumes "h \<noteq> 0"
  shows "\<bar>sin (h::real) / h - 1\<bar> \<le> h\<^sup>2 / 6"
proof -
  have "\<bar>sin h / h - 1\<bar> = \<bar>sin h - h\<bar> / \<bar>h\<bar>"
    using assms by (simp add: field_simps flip: abs_divide)
  also have "\<dots> \<le> (\<bar>h\<bar> ^ 3 / 6) / \<bar>h\<bar>"
    by (rule divide_right_mono[OF sin_minus_self_bound]) simp
  also have "\<dots> = h\<^sup>2 / 6"
    using assms by (simp add: power3_eq_cube power2_eq_square)
  finally show ?thesis .
qed

lemma cos_centered: "cos (a + h) - cos (a - h) = - 2 * sin a * sin (h::real)"
  by (simp add: cos_add cos_diff)

lemma spec_E0_deriv:
  "((\<lambda>x. spec_E0 (t, tp, tpp) x y) has_real_derivative
     2 * (t * sin x + tp * (sin (x - y) + sin (x + y)) + 2 * tpp * sin (2 * x))) (at x)"
  unfolding spec_E0_def prod.case
  by (auto intro!: derivative_eq_intros simp: algebra_simps)

lemma spec_E0_centered:
  "spec_E0 (t, tp, tpp) (x + h) y - spec_E0 (t, tp, tpp) (x - h) y =
   4 * (t * sin x + tp * (sin (x - y) + sin (x + y))) * sin h
   + 4 * tpp * sin (2 * x) * sin (2 * h)"
proof -
  have 1: "cos (x + h) - cos (x - h) = - 2 * sin x * sin h"
    by (rule cos_centered)
  have 2: "cos (x + h + y) - cos (x - h + y) = - 2 * sin (x + y) * sin h"
    using cos_centered[of "x + y" h] by (simp add: algebra_simps)
  have 3: "cos (x + h - y) - cos (x - h - y) = - 2 * sin (x - y) * sin h"
    using cos_centered[of "x - y" h] by (simp add: algebra_simps)
  have 4: "cos (2 * (x + h)) - cos (2 * (x - h)) = - 2 * sin (2 * x) * sin (2 * h)"
    using cos_centered[of "2 * x" "2 * h"] by (simp add: algebra_simps)
  have "spec_E0 (t, tp, tpp) (x + h) y - spec_E0 (t, tp, tpp) (x - h) y =
        - 2 * t * (cos (x + h) - cos (x - h))
        - 2 * tp * ((cos (x + h + y) - cos (x - h + y)) + (cos (x + h - y) - cos (x - h - y)))
        - 2 * tpp * (cos (2 * (x + h)) - cos (2 * (x - h)))"
    by (simp add: spec_E0_def algebra_simps)
  also have "\<dots> = 4 * (t * sin x + tp * (sin (x - y) + sin (x + y))) * sin h
                    + 4 * tpp * sin (2 * x) * sin (2 * h)"
    unfolding 1 2 3 4 by (simp add: algebra_simps)
  finally show ?thesis .
qed

lemma spec_E0_finite_difference:
  assumes "h \<noteq> 0"
  shows "\<bar>(spec_E0 (t, tp, tpp) (x + h) y - spec_E0 (t, tp, tpp) (x - h) y) / (2 * h)
          - 2 * (t * sin x + tp * (sin (x - y) + sin (x + y)) + 2 * tpp * sin (2 * x))\<bar>
         \<le> (\<bar>t\<bar> + 2 * \<bar>tp\<bar> + 8 * \<bar>tpp\<bar>) / 3 * h\<^sup>2"
proof -
  define P where "P = t * sin x + tp * (sin (x - y) + sin (x + y))"
  define Q where "Q = tpp * sin (2 * x)"
  have P: "\<bar>P\<bar> \<le> \<bar>t\<bar> + 2 * \<bar>tp\<bar>"
  proof -
    have "\<bar>P\<bar> \<le> \<bar>t * sin x\<bar> + \<bar>tp * (sin (x - y) + sin (x + y))\<bar>"
      unfolding P_def by (rule abs_triangle_ineq)
    also have "\<dots> \<le> \<bar>t\<bar> * 1 + \<bar>tp\<bar> * 2"
    proof (rule add_mono)
      show "\<bar>t * sin x\<bar> \<le> \<bar>t\<bar> * 1"
        unfolding abs_mult by (rule mult_left_mono) auto
      have "\<bar>sin (x - y) + sin (x + y)\<bar> \<le> \<bar>sin (x - y)\<bar> + \<bar>sin (x + y)\<bar>"
        by (rule abs_triangle_ineq)
      also have "\<dots> \<le> 1 + 1"
        by (rule add_mono) auto
      finally show "\<bar>tp * (sin (x - y) + sin (x + y))\<bar> \<le> \<bar>tp\<bar> * 2"
        unfolding abs_mult by (intro mult_left_mono) auto
    qed
    finally show ?thesis by simp
  qed
  have Q: "\<bar>Q\<bar> \<le> \<bar>tpp\<bar>"
    unfolding Q_def abs_mult using mult_left_mono[of "\<bar>sin (2 * x)\<bar>" 1 "\<bar>tpp\<bar>"] by simp
  have h2: "2 * h \<noteq> 0"
    using assms by simp
  have eq: "(spec_E0 (t, tp, tpp) (x + h) y - spec_E0 (t, tp, tpp) (x - h) y) / (2 * h)
          - 2 * (t * sin x + tp * (sin (x - y) + sin (x + y)) + 2 * tpp * sin (2 * x))
        = 2 * P * (sin h / h - 1) + 4 * Q * (sin (2 * h) / (2 * h) - 1)"
    unfolding spec_E0_centered P_def Q_def using assms by (simp add: field_simps)
  have "\<bar>2 * P * (sin h / h - 1) + 4 * Q * (sin (2 * h) / (2 * h) - 1)\<bar>
        \<le> \<bar>2 * P * (sin h / h - 1)\<bar> + \<bar>4 * Q * (sin (2 * h) / (2 * h) - 1)\<bar>"
    by (rule abs_triangle_ineq)
  also have "\<dots> \<le> 2 * (\<bar>t\<bar> + 2 * \<bar>tp\<bar>) * (h\<^sup>2 / 6) + 4 * \<bar>tpp\<bar> * ((2 * h)\<^sup>2 / 6)"
  proof (rule add_mono)
    show "\<bar>2 * P * (sin h / h - 1)\<bar> \<le> 2 * (\<bar>t\<bar> + 2 * \<bar>tp\<bar>) * (h\<^sup>2 / 6)"
      unfolding abs_mult using P sinc_bound[OF assms]
      by (intro mult_mono) auto
    show "\<bar>4 * Q * (sin (2 * h) / (2 * h) - 1)\<bar> \<le> 4 * \<bar>tpp\<bar> * ((2 * h)\<^sup>2 / 6)"
      unfolding abs_mult using Q sinc_bound[OF h2]
      by (intro mult_mono) auto
  qed
  also have "\<dots> = (\<bar>t\<bar> + 2 * \<bar>tp\<bar> + 8 * \<bar>tpp\<bar>) / 3 * h\<^sup>2"
    by (simp add: field_simps power2_eq_square)
  finally show ?thesis unfolding eq .
qed

subsection \<open>Bounds on \<open>\<pi>\<close> and rounding to two decimals\<close>

lemma sin_taylor8:
  "\<bar>sin (x::real) - (x - x ^ 3 / 6 + x ^ 5 / 120 - x ^ 7 / 5040)\<bar> \<le> \<bar>x\<bar> ^ 8 / 40320"
proof -
  have "{..<8::nat} = {0, 1, 2, 3, 4, 5, 6, 7}"
    by auto
  then have s: "(\<Sum>m<8. sin_coeff m * x ^ m) = x - x ^ 3 / 6 + x ^ 5 / 120 - x ^ 7 / 5040"
    by (simp add: sin_coeff_def fact_numeral)
  have f: "inverse (fact 8) * \<bar>x\<bar> ^ 8 = \<bar>x\<bar> ^ 8 / 40320"
    by (simp add: fact_numeral)
  show ?thesis
    using Maclaurin_sin_bound[of x 8] unfolding s f .
qed

lemma pi_upper: "pi < 31416 / 10000"
proof -
  define x :: real where "x = 5236 / 10000"
  have "1 / 2 < (x - x ^ 3 / 6 + x ^ 5 / 120 - x ^ 7 / 5040) - \<bar>x\<bar> ^ 8 / 40320"
    unfolding x_def by (simp add: power_divide)
  also have "\<dots> \<le> sin x"
    using sin_taylor8[of x] by linarith
  finally have "sin (pi / 6) < sin x"
    by (simp add: sin_30)
  moreover have "- (pi / 2) \<le> pi / 6" "pi / 6 \<le> pi / 2" "- (pi / 2) \<le> x" "x \<le> pi / 2"
    using pi_ge_two by (simp_all add: x_def)
  ultimately have "pi / 6 < x"
    by (simp add: sin_mono_less_eq)
  then show ?thesis by (simp add: x_def)
qed

lemma pi_lower: "3141 / 1000 < pi"
proof -
  define x :: real where "x = 5235 / 10000"
  have "sin x \<le> (x - x ^ 3 / 6 + x ^ 5 / 120 - x ^ 7 / 5040) + \<bar>x\<bar> ^ 8 / 40320"
    using sin_taylor8[of x] by linarith
  also have "\<dots> < 1 / 2"
    unfolding x_def by (simp add: power_divide)
  finally have "sin x < sin (pi / 6)"
    by (simp add: sin_30)
  moreover have "- (pi / 2) \<le> pi / 6" "pi / 6 \<le> pi / 2" "- (pi / 2) \<le> x" "x \<le> pi / 2"
    using pi_ge_two by (simp_all add: x_def)
  ultimately have "x < pi / 6"
    by (simp add: sin_mono_less_eq)
  then show ?thesis by (simp add: x_def)
qed

lemma round_half_even_eq:
  "of_int n - 1 / 2 < x \<Longrightarrow> x < of_int n + 1 / 2 \<Longrightarrow> round_half_even x = n"
proof -
  assume a: "of_int n - 1 / 2 < x" and b: "x < of_int n + 1 / 2"
  consider "\<lfloor>x\<rfloor> = n" | "\<lfloor>x\<rfloor> = n - 1"
    using a b by linarith
  then show ?thesis
  proof cases
    case 1
    then show ?thesis using a b by (simp add: round_half_even_def Let_def)
  next
    case 2
    then show ?thesis using a b by (auto simp add: round_half_even_def Let_def)
  qed
qed

lemma py_round_within:
  "of_int n - 1 / 2 < x * 100 \<Longrightarrow> x * 100 < of_int n + 1 / 2 \<Longrightarrow> py_round x 2 = of_int n / 100"
  using round_half_even_eq[of n "x * 100"] by (simp add: py_round_def)

lemma py_round_pi: "py_round pi 2 = 314 / 100"
  using round_half_even_eq[of 314 "pi * 100"] pi_lower pi_upper
  by (simp add: py_round_def)

subsection \<open>Rounding to a floating-point format\<close>

lemma round_half_even_bounds:
  "of_int (round_half_even x) - 1 / 2 \<le> x" "x \<le> of_int (round_half_even x) + 1 / 2"
  unfolding round_half_even_def Let_def by (auto; linarith)+

lemma round_half_even_mono: "x \<le> y \<Longrightarrow> round_half_even x \<le> round_half_even y"
proof (rule ccontr)
  assume xy: "x \<le> y" and "\<not> round_half_even x \<le> round_half_even y"
  then have 1: "round_half_even y + 1 \<le> round_half_even x"
    by simp
  then have "of_int (round_half_even y) + 1 \<le> (of_int (round_half_even x) :: real)"
    by linarith
  with round_half_even_bounds(1)[of x] round_half_even_bounds(2)[of y] xy
  have e: "x = y"
    by linarith
  with 1 show False by simp
qed

lemma round_half_even_of_int [simp]: "round_half_even (of_int n) = n"
  by (simp add: round_half_even_def)


lemma round_half_even_minus: "round_half_even (- x) = - round_half_even x"
proof (cases "x = of_int \<lfloor>x\<rfloor>")
  case True
  then obtain n where "x = of_int n" by metis
  then have "- x = of_int (- n)" by simp
  then show ?thesis
    unfolding \<open>x = of_int n\<close> by (metis round_half_even_of_int of_int_minus)
next
  case False
  then have f: "\<lfloor>- x\<rfloor> = - \<lfloor>x\<rfloor> - 1"
    by linarith
  show ?thesis
    unfolding round_half_even_def Let_def f using False
    by (auto simp: algebra_simps; linarith?)
qed

lemma round_float_eval:
  assumes "2 powr of_int e \<le> \<bar>x\<bar>" and "\<bar>x\<bar> < 2 powr of_int (e + 1)" and "emin \<le> e"
  shows "round_float p emin x =
         of_int (round_half_even (x / 2 powr of_int (e - int p + 1))) * 2 powr of_int (e - int p + 1)"
proof -
  have pos: "0 < \<bar>x\<bar>"
    using assms(1) by (smt (verit) powr_gt_zero)
  have "of_int e \<le> log 2 \<bar>x\<bar>"
    using assms(1) pos by (simp add: le_log_iff)
  moreover have "log 2 \<bar>x\<bar> < of_int e + 1"
    using assms(2) pos by (simp add: log_less_iff)
  ultimately have "\<lfloor>log 2 \<bar>x\<bar>\<rfloor> = e"
    by (intro floor_unique) auto
  moreover have "x \<noteq> 0"
    using pos by auto
  ultimately show ?thesis
    using assms(3) by (simp add: round_float_def Let_def max_def)
qed

lemma round_float_zero [simp]: "round_float p emin 0 = 0"
  by (simp add: round_float_def)

lemma round_float_minus: "round_float p emin (- x) = - round_float p emin x"
  by (simp add: round_float_def Let_def round_half_even_minus)

lemma floor_log_bounds:
  assumes "0 < x"
  shows "2 powr of_int \<lfloor>log 2 x\<rfloor> \<le> x" "x < 2 powr of_int (\<lfloor>log 2 x\<rfloor> + 1)"
proof -
  have "2 powr of_int \<lfloor>log 2 x\<rfloor> \<le> 2 powr log 2 x"
    by (intro powr_mono) simp_all
  then show "2 powr of_int \<lfloor>log 2 x\<rfloor> \<le> x"
    using assms by simp
  have "log 2 x < of_int (\<lfloor>log 2 x\<rfloor> + 1)"
    by simp
  then have "2 powr log 2 x < 2 powr of_int (\<lfloor>log 2 x\<rfloor> + 1)"
    by (intro powr_less_mono) simp_all
  then show "x < 2 powr of_int (\<lfloor>log 2 x\<rfloor> + 1)"
    using assms by simp
qed

lemma two_powr_nat: "(2::real) powr of_int (int n) = 2 ^ n"
  by (simp add: powr_realpow)

lemma round_half_even_two_power: "round_half_even (2 ^ n) = 2 ^ n"
  using round_half_even_of_int[of "2 ^ n"] by simp

lemma round_float_pos:
  fixes x :: real and emin :: int and p :: nat
  assumes "0 < x" and "0 < p"
  defines "e \<equiv> max \<lfloor>log 2 x\<rfloor> emin"
  shows "0 \<le> round_float p emin x"
    and "round_float p emin x \<le> 2 powr of_int (e + 1)"
    and "emin \<le> \<lfloor>log 2 x\<rfloor> \<Longrightarrow> 2 powr of_int e \<le> round_float p emin x"
proof -
  define u :: real where "u = 2 powr of_int (e - int p + 1)"
  have u: "0 < u"
    by (simp add: u_def)
  have r: "round_float p emin x = of_int (round_half_even (x / u)) * u"
    using assms(1) by (simp add: round_float_def Let_def e_def u_def)
  have "round_half_even 0 \<le> round_half_even (x / u)"
    using assms(1) u by (intro round_half_even_mono) simp
  then have "0 \<le> round_half_even (x / u)"
    using round_half_even_of_int[of 0] by simp
  then show "0 \<le> round_float p emin x"
    unfolding r using u by simp
  have "x < 2 powr of_int (\<lfloor>log 2 x\<rfloor> + 1)"
    using floor_log_bounds(2)[OF assms(1)] .
  also have "\<dots> \<le> 2 powr of_int (e + 1)"
    by (simp add: e_def)
  finally have "x / u < 2 powr of_int (e + 1) / u"
    using u by (simp add: divide_strict_right_mono)
  also have "2 powr of_int (e + 1) / u = 2 powr of_int (int p)"
    unfolding u_def by (simp add: powr_diff[symmetric])
  also have "\<dots> = 2 ^ p"
    by (rule two_powr_nat)
  finally have "round_half_even (x / u) \<le> round_half_even (2 ^ p)"
    by (intro round_half_even_mono) simp
  then have "round_half_even (x / u) \<le> 2 ^ p"
    unfolding round_half_even_two_power .
  then have "of_int (round_half_even (x / u)) \<le> (of_int (2 ^ p) :: real)"
    by (rule of_int_le_iff[THEN iffD2])
  then have "round_float p emin x \<le> 2 ^ p * u"
    unfolding r using u by (simp add: mult_right_mono)
  also have "2 ^ p * u = 2 powr of_int (int p) * u"
    unfolding two_powr_nat ..
  also have "\<dots> = 2 powr of_int (e + 1)"
    unfolding u_def by (simp add: powr_add[symmetric])
  finally show "round_float p emin x \<le> 2 powr of_int (e + 1)" .
  assume n: "emin \<le> \<lfloor>log 2 x\<rfloor>"
  then have e: "e = \<lfloor>log 2 x\<rfloor>"
    by (simp add: e_def)
  obtain q where q: "p = Suc q"
    using assms(2) by (cases p) auto
  have "2 powr of_int e \<le> x"
    unfolding e using floor_log_bounds(1)[OF assms(1)] .
  then have "2 powr of_int e / u \<le> x / u"
    using u by (simp add: divide_right_mono)
  moreover have "2 powr of_int e / u = 2 powr of_int (int q)"
    unfolding u_def q by (simp add: powr_diff[symmetric])
  moreover have "\<dots> = 2 ^ q"
    by (rule two_powr_nat)
  ultimately have "round_half_even (2 ^ q) \<le> round_half_even (x / u)"
    by (intro round_half_even_mono) simp
  then have "2 ^ q \<le> round_half_even (x / u)"
    unfolding round_half_even_two_power .
  then have "(of_int (2 ^ q) :: real) \<le> of_int (round_half_even (x / u))"
    by (rule of_int_le_iff[THEN iffD2])
  then have "2 ^ q * u \<le> round_float p emin x"
    unfolding r using u by (simp add: mult_right_mono)
  moreover have "2 ^ q * u = 2 powr of_int (int q) * u"
    unfolding two_powr_nat ..
  moreover have "\<dots> = 2 powr of_int e"
    unfolding u_def q by (simp add: powr_add[symmetric])
  ultimately show "2 powr of_int e \<le> round_float p emin x"
    by simp
qed

lemma round_float_mono_pos:
  assumes "0 < x" and "x \<le> y" and "0 < p"
  shows "round_float p emin x \<le> round_float p emin y"
proof -
  have y: "0 < y"
    using assms by simp
  define ex where "ex = max \<lfloor>log 2 x\<rfloor> emin"
  define ey where "ey = max \<lfloor>log 2 y\<rfloor> emin"
  have "log 2 x \<le> log 2 y"
    using assms by simp
  then have fl: "\<lfloor>log 2 x\<rfloor> \<le> \<lfloor>log 2 y\<rfloor>"
    by (rule floor_mono)
  then have le: "ex \<le> ey"
    by (simp add: ex_def ey_def)
  show ?thesis
  proof (cases "ex = ey")
    case True
    define u :: real where "u = 2 powr of_int (ex - int p + 1)"
    have u: "0 < u"
      by (simp add: u_def)
    have rx: "round_float p emin x = of_int (round_half_even (x / u)) * u"
      using assms(1) by (simp add: round_float_def Let_def ex_def u_def)
    have ry: "round_float p emin y = of_int (round_half_even (y / u)) * u"
      using y True by (simp add: round_float_def Let_def ex_def ey_def u_def)
    have "round_half_even (x / u) \<le> round_half_even (y / u)"
      using assms(2) u by (intro round_half_even_mono) (simp add: divide_right_mono)
    then show ?thesis
      unfolding rx ry using u by (simp add: mult_right_mono)
  next
    case False
    with le have lt: "ex + 1 \<le> ey"
      by simp
    then have "emin < ey"
      by (simp add: ex_def)
    then have n: "emin \<le> \<lfloor>log 2 y\<rfloor>"
      by (simp add: ey_def max_def split: if_splits)
    have "round_float p emin x \<le> 2 powr of_int (ex + 1)"
      unfolding ex_def by (rule round_float_pos(2)[OF assms(1,3)])
    also have "\<dots> \<le> 2 powr of_int ey"
      using lt by simp
    also have "\<dots> \<le> round_float p emin y"
      unfolding ey_def by (rule round_float_pos(3)[OF y assms(3) n])
    finally show ?thesis .
  qed
qed

lemma round_float_mono:
  assumes "x \<le> y" and "0 < p"
  shows "round_float p emin x \<le> round_float p emin y"
proof -
  consider "0 < x" | "y < 0" | "x \<le> 0" "0 \<le> y"
    by linarith
  then show ?thesis
  proof cases
    case 1
    then show ?thesis using assms by (intro round_float_mono_pos)
  next
    case 2
    then have "round_float p emin (- y) \<le> round_float p emin (- x)"
      using assms by (intro round_float_mono_pos) simp_all
    then show ?thesis by (simp add: round_float_minus)
  next
    case 3
    have "round_float p emin x \<le> 0"
    proof (cases "x = 0")
      case False
      with 3 have "0 \<le> round_float p emin (- x)"
        using assms(2) by (intro round_float_pos(1)) simp_all
      then show ?thesis by (simp add: round_float_minus)
    qed simp
    moreover have "0 \<le> round_float p emin y"
    proof (cases "y = 0")
      case False
      with 3 show ?thesis
        using assms(2) by (intro round_float_pos(1)) simp_all
    qed simp
    ultimately show ?thesis by simp
  qed
qed

lemma round_float_exact:
  assumes "x = of_int m * 2 powr of_int k" and "\<bar>m\<bar> < 2 ^ p" and "emin - int p + 1 \<le> k"
  shows "round_float p emin x = x"
proof (cases "m = 0")
  case True
  then show ?thesis using assms(1) by simp
next
  case False
  then have x0: "x \<noteq> 0" and ax: "0 < \<bar>x\<bar>"
    using assms(1) by simp_all
  define e where "e = max \<lfloor>log 2 \<bar>x\<bar>\<rfloor> emin"
  have "\<bar>x\<bar> = of_int \<bar>m\<bar> * 2 powr of_int k"
    unfolding assms(1) by (simp add: abs_mult)
  also have "\<dots> < 2 ^ p * 2 powr of_int k"
    using assms(2) by (intro mult_strict_right_mono) (simp_all flip: of_int_less_iff[where 'a = real])
  also have "\<dots> = 2 powr of_int (int p + k)"
    by (simp add: powr_add two_powr_nat[symmetric] del: of_int_of_nat_eq)
  finally have "log 2 \<bar>x\<bar> < of_int (int p + k)"
    using ax by (simp add: log_less_iff del: of_int_add)
  then have "\<lfloor>log 2 \<bar>x\<bar>\<rfloor> < int p + k"
    by (simp add: floor_less_iff del: of_int_add)
  then have le: "e - int p + 1 \<le> k"
    using assms(3) by (simp add: e_def)
  define d where "d = nat (k - (e - int p + 1))"
  have d: "of_int k = of_int (e - int p + 1) + (of_int (int d) :: real)"
    using le by (simp add: d_def)
  have "x / 2 powr of_int (e - int p + 1) = of_int m * 2 powr of_int (int d)"
    unfolding assms(1) d by (simp add: powr_add)
  also have "\<dots> = of_int (m * 2 ^ d)"
    unfolding two_powr_nat by simp
  finally have q: "round_half_even (x / 2 powr of_int (e - int p + 1)) = m * 2 ^ d"
    by (simp only: round_half_even_of_int)
  have "round_float p emin x = of_int (m * 2 ^ d) * 2 powr of_int (e - int p + 1)"
    using x0 by (simp only: round_float_def Let_def e_def[symmetric] q if_False)
  also have "\<dots> = of_int m * (2 powr of_int (int d) * 2 powr of_int (e - int p + 1))"
    unfolding two_powr_nat by simp
  also have "2 powr of_int (int d) * 2 powr of_int (e - int p + 1) = (2::real) powr of_int k"
    unfolding d by (simp add: powr_add)
  finally show ?thesis
    unfolding assms(1) .
qed

lemma round_float_of_int:
  assumes "\<bar>n\<bar> < 2 ^ p" and "emin - int p + 1 \<le> 0"
  shows "round_float p emin (of_int n) = of_int n"
  using round_float_exact[of "of_int n" n 0 p emin] assms by simp


lemma round_float_rel:
  assumes "2 powr of_int emin \<le> x"
  shows "round_float p emin x \<le> x * (1 + 1 / 2 ^ p)"
proof -
  have x: "0 < x"
    using assms by (smt (verit) powr_gt_zero)
  have "of_int emin \<le> log 2 x"
    using assms x by (simp add: le_log_iff)
  then have n: "emin \<le> \<lfloor>log 2 x\<rfloor>"
    by (simp add: le_floor_iff)
  define e where "e = \<lfloor>log 2 x\<rfloor>"
  define u :: real where "u = 2 powr of_int (e - int p + 1)"
  have u: "0 < u"
    by (simp add: u_def)
  have r: "round_float p emin x = of_int (round_half_even (x / u)) * u"
    using x n by (simp add: round_float_def Let_def e_def u_def max_def)
  have "of_int (round_half_even (x / u)) \<le> x / u + 1 / 2"
    using round_half_even_bounds(1)[of "x / u"] by simp
  then have "round_float p emin x \<le> (x / u + 1 / 2) * u"
    unfolding r using u by (intro mult_right_mono) simp_all
  also have "\<dots> = x + u / 2"
    using u by (simp add: field_simps)
  also have "u / 2 = 2 powr of_int e / 2 ^ p"
    unfolding u_def by (simp add: powr_add powr_diff two_powr_nat[symmetric] del: of_int_of_nat_eq)
  also have "\<dots> \<le> x / 2 ^ p"
    unfolding e_def using floor_log_bounds(1)[OF x] by (simp add: divide_right_mono)
  finally show ?thesis
    by (simp add: algebra_simps)
qed

subsection \<open>Doubles and long doubles\<close>

lemma float128_mono: "x \<le> y \<Longrightarrow> float128 x \<le> float128 y"
  unfolding float128_def by (rule round_float_mono) simp_all

lemma float64_mono: "x \<le> y \<Longrightarrow> float64 x \<le> float64 y"
  unfolding float64_def by (rule round_float_mono) simp_all

lemma float128_zero [simp]: "float128 0 = 0"
  by (simp add: float128_def)

lemma float64_zero [simp]: "float64 0 = 0"
  by (simp add: float64_def)

lemma float128_nonneg: "0 \<le> x \<Longrightarrow> 0 \<le> float128 x"
  using float128_mono[of 0 x] by simp

lemma float64_nonneg: "0 \<le> x \<Longrightarrow> 0 \<le> float64 x"
  using float64_mono[of 0 x] by simp

lemma float128_of_int: "\<bar>n\<bar> < 2 ^ 64 \<Longrightarrow> float128 (of_int n) = of_int n"
  unfolding float128_def by (rule round_float_of_int) simp_all

lemma float128_of_nat: "n < 2 ^ 64 \<Longrightarrow> float128 (of_nat n) = of_nat n"
  using float128_of_int[of "int n"] by simp

lemma float128_exact:
  "x = of_int m * 2 powr of_int k \<Longrightarrow> \<bar>m\<bar> < 2 ^ 64 \<Longrightarrow> - 16445 \<le> k \<Longrightarrow> float128 x = x"
  unfolding float128_def by (rule round_float_exact) simp_all

lemma float64_exact:
  "x = of_int m * 2 powr of_int k \<Longrightarrow> \<bar>m\<bar> < 2 ^ 53 \<Longrightarrow> - 1074 \<le> k \<Longrightarrow> float64 x = x"
  unfolding float64_def by (rule round_float_exact) simp_all

lemma float128_one [simp]: "float128 1 = 1" and float128_two [simp]: "float128 2 = 2"
  using float128_of_int[of 1] float128_of_int[of 2] by simp_all

lemma float64_one: "float64 1 = 1"
  using float64_exact[of 1 1 0] by simp

text \<open>A sum with \<open>1.0\<close> that is lost in rounding.\<close>

lemma float128_one_plus:
  assumes "0 \<le> t" and "t < 1 / 2 ^ 64"
  shows "float128 (1 + t) = 1"
proof -
  have "round_half_even ((1 + t) * 2 ^ 63) = 2 ^ 63"
    using assms round_half_even_eq[of "2 ^ 63" "(1 + t) * 2 ^ 63"]
    by (simp add: algebra_simps)
  moreover have "float128 (1 + t) =
      of_int (round_half_even ((1 + t) / 2 powr of_int (0 - int 64 + 1)))
        * 2 powr of_int (0 - int 64 + 1)"
    unfolding float128_def using assms by (intro round_float_eval) simp_all
  ultimately show ?thesis
    by (simp add: powr_minus_divide powr_numeral)
qed

lemma exp_ge_two_power: "2 ^ n \<le> exp (real n)"
proof -
  have "(2::real) \<le> exp 1"
    using exp_ge_add_one_self[of 1] by simp
  then have "(2::real) ^ n \<le> exp 1 ^ n"
    by (intro power_mono) simp_all
  then show ?thesis
    using exp_of_nat_mult[of n "1::real"] by simp
qed

lemma fermi_dirac_entry_bounds:
  "0 \<le> fermi_dirac_entry beta x" "fermi_dirac_entry beta x \<le> 2"
proof -
  define ex where "ex = float128 (exp (float128 (beta * x)))"
  have ex: "0 \<le> ex"
    unfolding ex_def by (intro float128_nonneg) simp
  then have "float128 1 \<le> float128 (1 + ex)"
    by (intro float128_mono) simp
  then have d: "1 \<le> float128 (1 + ex)"
    by simp
  then have "0 \<le> 2 / float128 (1 + ex)" "2 / float128 (1 + ex) \<le> 2"
    by (simp_all add: field_simps)
  then have "0 \<le> float128 (2 / float128 (1 + ex))"
    "float128 (2 / float128 (1 + ex)) \<le> 2"
    using float128_mono[of "2 / float128 (1 + ex)" 2] by (simp_all add: float128_nonneg)
  then show "0 \<le> fermi_dirac_entry beta x" "fermi_dirac_entry beta x \<le> 2"
    by (simp_all add: fermi_dirac_entry_def Let_def ex_def)
qed

lemma fermi_dirac_entry_antimono:
  assumes "x \<le> y" and "0 \<le> beta"
  shows "fermi_dirac_entry beta y \<le> fermi_dirac_entry beta x"
proof -
  define ex where "ex = float128 (exp (float128 (beta * x)))"
  define ey where "ey = float128 (exp (float128 (beta * y)))"
  have "beta * x \<le> beta * y"
    using assms by (simp add: mult_left_mono)
  then have le: "ex \<le> ey"
    unfolding ex_def ey_def by (intro float128_mono) (simp add: float128_mono)
  have ex: "0 \<le> ex"
    unfolding ex_def by (intro float128_nonneg) simp
  show ?thesis
  proof (cases "float128_overflow \<le> ey")
    case True
    then show ?thesis
      using fermi_dirac_entry_bounds(1)[of beta x]
      by (simp add: fermi_dirac_entry_def Let_def ey_def)
  next
    case False
    with le have nx: "\<not> float128_overflow \<le> ex"
      by simp
    have "float128 1 \<le> float128 (1 + ex)"
      using ex by (intro float128_mono) simp
    then have dx: "1 \<le> float128 (1 + ex)"
      by simp
    have dd: "float128 (1 + ex) \<le> float128 (1 + ey)"
      using le by (intro float128_mono) simp
    have "2 / float128 (1 + ey) \<le> 2 / float128 (1 + ex)"
      using dx dd by (intro divide_left_mono) (simp_all add: mult_pos_pos)
    then have "float128 (2 / float128 (1 + ey)) \<le> float128 (2 / float128 (1 + ex))"
      by (rule float128_mono)
    then show ?thesis
      using False nx by (simp add: fermi_dirac_entry_def Let_def ex_def ey_def)
  qed
qed

text \<open>A state well below the chemical potential is full, one far above it is empty.\<close>

lemma float128_overflow_ge_one: "1 \<le> float128_overflow"
  unfolding float128_overflow_def by (rule ge_one_powr_ge_zero) simp_all

lemma float128_overflow_exact: "float128 float128_overflow = float128_overflow"
  unfolding float128_overflow_def
  by (rule float128_exact[of _ 1 16384]) (simp_all only: of_int_1 mult_1, simp_all)

lemma two_powr_le_exp:
  assumes "0 \<le> a" and "a \<le> y"
  shows "2 powr a \<le> exp (y::real)"
proof -
  have "ln (2::real) \<le> 2 - 1"
    by (rule ln_le_minus_one) simp
  then have "a * ln 2 \<le> a * 1"
    using assms(1) by (intro mult_left_mono) simp_all
  then have "a * ln 2 \<le> y"
    using assms(2) by simp
  then show ?thesis
    by (simp add: powr_def)
qed

lemma float128_overflow_le_exp: "16384 \<le> y \<Longrightarrow> float128_overflow \<le> exp y"
  unfolding float128_overflow_def by (rule two_powr_le_exp) simp_all

lemma fermi_dirac_entry_full:
  assumes "x \<le> - 1"
  shows "fermi_dirac_entry 100 x = 2"
proof -
  define ex where "ex = float128 (exp (float128 (100 * x)))"
  have "float128 (100 * x) \<le> float128 (of_int (- 100))"
    using assms by (intro float128_mono) simp
  also have "\<dots> = - 100"
    using float128_of_int[of "- 100"] by simp
  finally have "exp (float128 (100 * x)) \<le> exp (- 100)"
    by simp
  also have "exp (- 100 :: real) \<le> 1 / 2 ^ 100"
    using exp_ge_two_power[of 100] by (simp add: exp_minus field_simps)
  finally have "ex \<le> float128 (1 / 2 ^ 100)"
    unfolding ex_def by (rule float128_mono)
  also have "float128 (1 / 2 ^ 100) = 1 / 2 ^ 100"
    by (rule float128_exact[of _ 1 "- 100"]) (simp_all add: powr_minus_divide powr_numeral)
  finally have small: "ex \<le> 1 / 2 ^ 100" .
  have ex: "0 \<le> ex"
    unfolding ex_def by (intro float128_nonneg) simp
  have "(1::real) / 2 ^ 100 < 1"
    by simp
  then have "ex < float128_overflow"
    using small float128_overflow_ge_one by linarith
  moreover have "float128 (1 + ex) = 1"
    using ex small by (intro float128_one_plus) (simp_all add: field_simps)
  ultimately show ?thesis
    by (simp add: fermi_dirac_entry_def Let_def ex_def[symmetric])
qed

lemma fermi_dirac_entry_empty:
  assumes "164 \<le> x"
  shows "fermi_dirac_entry 100 x = 0"
proof -
  define y where "y = float128 (100 * x)"
  have "float128 (of_int 16400) \<le> float128 (100 * x)"
    using assms by (intro float128_mono) simp
  then have "16384 \<le> y"
    unfolding y_def using float128_of_int[of 16400] by simp
  then have "float128_overflow \<le> exp y"
    by (rule float128_overflow_le_exp)
  then have "float128 float128_overflow \<le> float128 (exp y)"
    by (rule float128_mono)
  then show ?thesis
    unfolding float128_overflow_exact fermi_dirac_entry_def Let_def y_def[symmetric] by simp
qed

lemma foldl_float128_mono:
  "list_all2 (\<le>) xs ys \<Longrightarrow> a \<le> b \<Longrightarrow>
   foldl (\<lambda>s x. float128 (s + x)) a xs \<le> foldl (\<lambda>s x. float128 (s + x)) b ys"
proof (induction xs ys arbitrary: a b rule: list_all2_induct)
  case Nil
  then show ?case by simp
next
  case (Cons x xs y ys)
  have "float128 (a + x) \<le> float128 (b + y)"
    using Cons.hyps(1) Cons.prems by (intro float128_mono) simp
  then show ?case
    using Cons.IH by simp
qed

lemma foldl_float128_bounds:
  "\<forall>x \<in> set xs. 0 \<le> x \<and> x \<le> 2 \<Longrightarrow> 0 \<le> a \<Longrightarrow> a \<le> 2 * real c \<Longrightarrow>
   2 * (c + length xs) < 2 ^ 64 \<Longrightarrow>
   0 \<le> foldl (\<lambda>s x. float128 (s + x)) a xs
   \<and> foldl (\<lambda>s x. float128 (s + x)) a xs \<le> 2 * real (c + length xs)"
proof (induction xs arbitrary: a c)
  case Nil
  then show ?case by simp
next
  case (Cons x xs)
  have x: "0 \<le> x" "x \<le> 2"
    using Cons.prems(1) by simp_all
  have n: "2 * Suc c < 2 ^ 64"
    using Cons.prems(4) by simp
  have lo: "0 \<le> float128 (a + x)"
    using x Cons.prems(2) by (intro float128_nonneg) simp
  have "float128 (a + x) \<le> float128 (real (2 * Suc c))"
    using x Cons.prems(3) by (intro float128_mono) simp
  also have "\<dots> = real (2 * Suc c)"
    using n by (rule float128_of_nat)
  finally have hi: "float128 (a + x) \<le> 2 * real (Suc c)"
    by simp
  have m: "2 * (Suc c + length xs) < 2 ^ 64"
    using Cons.prems(4) by simp
  have r: "\<forall>x \<in> set xs. 0 \<le> x \<and> x \<le> 2"
    using Cons.prems(1) by simp
  show ?case
    using Cons.IH[OF r lo hi m] by simp
qed

lemma foldl_float128_full:
  assumes "\<forall>x \<in> set xs. x = 2" and "a = 2 * real c" and "2 * (c + length xs) < 2 ^ 64"
  shows "foldl (\<lambda>s x. float128 (s + x)) a xs = 2 * real (c + length xs)"
  using assms
proof (induction xs arbitrary: a c)
  case Nil
  then show ?case by simp
next
  case (Cons x xs)
  have n: "2 * Suc c < 2 ^ 64"
    using Cons.prems(3) by simp
  have "a + x = real (2 * Suc c)"
    using Cons.prems(1,2) by simp
  then have "float128 (a + x) = real (2 * Suc c)"
    using float128_of_nat[OF n] by simp
  then have e: "float128 (a + x) = 2 * real (Suc c)"
    by simp
  have "foldl (\<lambda>s x. float128 (s + x)) (float128 (a + x)) xs = 2 * real (Suc c + length xs)"
    using Cons.prems(1,3) by (intro Cons.IH e) simp_all
  then show ?case by simp
qed

lemma float64_eval:
  assumes "2 powr of_int e \<le> \<bar>x\<bar>" and "\<bar>x\<bar> < 2 powr of_int (e + 1)" and "- 1022 \<le> e"
  shows "float64 x =
         of_int (round_half_even (x / 2 powr of_int (e - 52))) * 2 powr of_int (e - 52)"
  using round_float_eval[OF assms, of 53] by (simp add: float64_def)

lemmas float_simps = powr_minus_divide powr_numeral round_half_even_def Let_def


lemma float64_rel: "2 powr (- 1022) \<le> x \<Longrightarrow> float64 x \<le> x * (1 + 1 / 2 ^ 53)"
  unfolding float64_def by (rule round_float_rel) simp





text \<open>The double \<open>pi\<close> and the samples between \<open>-pi\<close> and \<open>pi\<close>.\<close>

lemma float64_np_pi:
  "float64 np_pi = np_pi" "float64 (- np_pi) = - np_pi" "float64 (2 * np_pi) = 2 * np_pi"
proof -
  show "float64 np_pi = np_pi"
    by (rule float64_exact[of _ 884279719003555 "- 48"]) (simp_all add: np_pi_def powr_minus_divide)
  show "float64 (- np_pi) = - np_pi"
    by (rule float64_exact[of _ "- 884279719003555" "- 48"])
       (simp_all add: np_pi_def powr_minus_divide)
  show "float64 (2 * np_pi) = 2 * np_pi"
    by (rule float64_exact[of _ 884279719003555 "- 47"]) (simp_all add: np_pi_def powr_minus_divide)
qed

lemma np_pi_pos: "0 < np_pi"
  by (simp add: np_pi_def)

lemma py_round_np_pi: "py_round np_pi 2 = 314 / 100"
proof -
  have "py_round np_pi 2 = of_int 314 / 100"
    by (intro py_round_within) (simp_all add: np_pi_def)
  then show ?thesis by simp
qed

lemma py_round_two_np_pi: "py_round (2 * np_pi) 2 = 628 / 100"
proof -
  have "py_round (2 * np_pi) 2 = of_int 628 / 100"
    by (intro py_round_within) (simp_all add: np_pi_def)
  then show ?thesis by simp
qed

subsection \<open>\<open>linspace\<close> and the masks\<close>

lemma linspace_k_samples: "linspace (- pi) pi (int n) = Inr (k_samples n)"
  by (simp add: k_samples_def linspace_def Let_def)

lemma length_linspace: "linspace a b n = Inr ks \<Longrightarrow> length ks = nat n"
  by (auto simp: linspace_def Let_def split: if_splits)

lemma length_k_samples [simp]: "length (k_samples n) = n"
  using length_linspace[OF linspace_k_samples] by simp

lemma linspace_nth:
  assumes "linspace a b n = Inr ks" and "i < nat n"
  shows "ks ! i = (if n = 1 then a else a + real i * (b - a) / of_int (n - 1))"
proof (cases "1 < n")
  case True
  have ks: "ks = (map (\<lambda>i. real i * ((b - a) / of_int (n - 1)) + a) [0..<nat n])[nat n - 1 := b]"
    using assms(1) True by (simp add: linspace_def Let_def)
  show ?thesis
  proof (cases "i = nat n - 1")
    case True
    with \<open>1 < n\<close> have "real i = of_int (n - 1)" by (simp add: of_nat_diff)
       then show ?thesis using True \<open>1 < n\<close> assms(2) unfolding ks by simp
  next
    case False
    then show ?thesis using True assms(2) unfolding ks by (simp add: algebra_simps)
  qed
next
  case False
  with assms(2) have n: "n = 1" and i: "i = 0" by auto
  then show ?thesis using assms(1) by (auto simp: linspace_def Let_def)
qed

lemma k_samples_nth:
  "i < n \<Longrightarrow> k_samples n ! i = (if n = 1 then - pi else - pi + real i * (2 * pi) / real (n - 1))"
  using linspace_nth[OF linspace_k_samples, of i n]
  by (auto simp: of_nat_diff)

lemma k_samples_1: "k_samples (Suc 0) = [- pi]"
proof (rule nth_equalityI)
  show "length (k_samples (Suc 0)) = length [- pi]"
    by simp
  fix i
  assume "i < length (k_samples (Suc 0))"
  then have "i = 0"
    by simp
  then show "k_samples (Suc 0) ! i = [- pi] ! i"
    using k_samples_nth[of 0 "Suc 0"] by simp
qed

lemma linspace_buffer_float64:
  "linspace_float64 (- np_pi) np_pi (int n) = Inr (buffer_float64 n)"
  by (simp add: buffer_float64_def linspace_float64_def Let_def)

lemma length_linspace_float64: "linspace_float64 a b n = Inr ks \<Longrightarrow> length ks = nat n"
  by (auto simp: linspace_float64_def Let_def split: if_splits)

lemma length_buffer_float64 [simp]: "length (buffer_float64 n) = n"
  using length_linspace_float64[OF linspace_buffer_float64] by simp

lemma buffer_float64_nth:
  assumes "i < n"
  shows "buffer_float64 n ! i =
     (if n = 1 then - np_pi else if i = n - 1 then np_pi
      else float64 (float64 (real i * float64 (2 * np_pi / real (n - 1))) + - np_pi))"
proof (cases "1 < n")
  case True
  have b: "buffer_float64 n =
      (map (\<lambda>i. float64 (float64 (real i * float64 (2 * np_pi / real (n - 1))) + - np_pi))
         [0..<n])[n - 1 := np_pi]"
    using True by (simp add: buffer_float64_def linspace_float64_def Let_def float64_np_pi of_nat_diff)
  show ?thesis
    using assms True unfolding b by (simp add: nth_list_update)
next
  case False
  with assms have n: "n = 1" and i: "i = 0"
    by auto
  show ?thesis
    unfolding n i by (simp add: buffer_float64_def linspace_float64_def Let_def float64_np_pi)
qed

lemma buffer_float64_1: "buffer_float64 (Suc 0) = [- np_pi]"
proof (rule nth_equalityI)
  show "length (buffer_float64 (Suc 0)) = length [- np_pi]"
    by simp
  fix i
  assume "i < length (buffer_float64 (Suc 0))"
  then have "i = 0"
    by simp
  then show "buffer_float64 (Suc 0) ! i = [- np_pi] ! i"
    using buffer_float64_nth[of 0 "Suc 0"] by simp
qed

text \<open>On three samples the middle one is \<open>0\<close>.\<close>

lemma buffer_float64_3:
  "buffer_float64 3 ! 0 = - np_pi" "buffer_float64 3 ! 1 = 0" "buffer_float64 3 ! 2 = np_pi"
proof -
  have s: "float64 (2 * np_pi / 2) = np_pi"
    using float64_np_pi(1) by simp
  show "buffer_float64 3 ! 0 = - np_pi"
    using buffer_float64_nth[of 0 3] by (simp add: float64_np_pi)
  show "buffer_float64 3 ! 1 = 0"
    using buffer_float64_nth[of 1 3] by (simp add: s float64_np_pi)
  show "buffer_float64 3 ! 2 = np_pi"
    using buffer_float64_nth[of 2 3] by simp
qed

text \<open>
  On seven samples the step is the double nearest \<open>\<pi> / 3\<close>, and the samples \<open>1\<close> and \<open>2\<close>,
  near \<open>-2\<pi> / 3\<close> and \<open>-\<pi> / 3\<close>, have magnitudes whose sum is the double next above \<open>pi\<close>.
\<close>

lemma buffer_float64_7:
  "buffer_float64 7 ! 1 = - 2358079250676147 / 2 ^ 50"
  "buffer_float64 7 ! 2 = - 2358079250676147 / 2 ^ 51"
  "buffer_float64 7 ! 3 = 0"
proof -
  have s: "float64 (2 * np_pi / 6) = 4716158501352293 / 2 ^ 52"
    using float64_eval[of 0 "2 * np_pi / 6"] by (simp add: np_pi_def float_simps)
  have p1: "float64 (4716158501352293 / 2 ^ 52) = 4716158501352293 / 2 ^ 52"
    by (rule float64_exact[of _ 4716158501352293 "- 52"]) (simp_all add: powr_minus_divide)
  have p2: "float64 (2 * (4716158501352293 / 2 ^ 52)) = 4716158501352293 / 2 ^ 51"
    using float64_exact[of "4716158501352293 / 2 ^ 51" 4716158501352293 "- 51"]
    by (simp add: powr_minus_divide)
  have p3: "float64 (3 * (4716158501352293 / 2 ^ 52)) = np_pi"
    using float64_eval[of 1 "3 * (4716158501352293 / 2 ^ 52)"] by (simp add: np_pi_def float_simps)
  have y1: "float64 (4716158501352293 / 2 ^ 52 + - np_pi) = - 2358079250676147 / 2 ^ 50"
    using float64_eval[of 1 "4716158501352293 / 2 ^ 52 + - np_pi"]
    by (simp add: np_pi_def float_simps)
  have y2: "float64 (4716158501352293 / 2 ^ 51 + - np_pi) = - 2358079250676147 / 2 ^ 51"
    using float64_eval[of 0 "4716158501352293 / 2 ^ 51 + - np_pi"]
    by (simp add: np_pi_def float_simps)
  have e: "buffer_float64 7 ! i =
      float64 (float64 (real i * float64 (2 * np_pi / 6)) + - np_pi)" if "i < 6" for i
    using buffer_float64_nth[of i 7] that by simp
  have m: "real 1 * (4716158501352293 / 2 ^ 52) = 4716158501352293 / 2 ^ 52"
    "real 2 * (4716158501352293 / 2 ^ 52) = 2 * (4716158501352293 / 2 ^ 52)"
    "real 3 * (4716158501352293 / 2 ^ 52) = 3 * (4716158501352293 / 2 ^ 52)"
    by simp_all
  have z: "float64 (np_pi + - np_pi) = 0"
    by simp
  have "buffer_float64 7 ! 1 = float64 (float64 (real 1 * float64 (2 * np_pi / 6)) + - np_pi)"
    by (rule e) simp
  then show "buffer_float64 7 ! 1 = - 2358079250676147 / 2 ^ 50"
    by (simp only: s m p1 y1)
  have "buffer_float64 7 ! 2 = float64 (float64 (real 2 * float64 (2 * np_pi / 6)) + - np_pi)"
    by (rule e) simp
  then show "buffer_float64 7 ! 2 = - 2358079250676147 / 2 ^ 51"
    by (simp only: s m p2 y2)
  have "buffer_float64 7 ! 3 = float64 (float64 (real 3 * float64 (2 * np_pi / 6)) + - np_pi)"
    by (rule e) simp
  then show "buffer_float64 7 ! 3 = 0"
    by (simp only: s m p3 z)
qed

lemma diamond_sum_7:
  "float64 (\<bar>buffer_float64 7 ! 1\<bar> + \<bar>buffer_float64 7 ! 2\<bar>) = 7074237752028441 / 2 ^ 51"
  "np_pi = 7074237752028440 / 2 ^ 51"
proof -
  show "float64 (\<bar>buffer_float64 7 ! 1\<bar> + \<bar>buffer_float64 7 ! 2\<bar>) = 7074237752028441 / 2 ^ 51"
    unfolding buffer_float64_7
    using float64_exact[of "7074237752028441 / 2 ^ 51" 7074237752028441 "- 51"]
    by (simp add: powr_minus_divide)
  show "np_pi = 7074237752028440 / 2 ^ 51"
    by (simp add: np_pi_def)
qed

text \<open>
  On a thousand samples the sample \<open>500\<close> is the first above \<open>0\<close>, and with the sample \<open>0\<close>,
  which is \<open>-pi\<close>, it has the sum of magnitudes \<open>3.1447...\<close>.
\<close>

lemma buffer_float64_1000:
  "buffer_float64 1000 ! 0 = - np_pi"
  "buffer_float64 1000 ! 500 = 7081319071099 / 2 ^ 51"
  "float64 (\<bar>buffer_float64 1000 ! 0\<bar> + \<bar>buffer_float64 1000 ! 500\<bar>) = 7081319071099539 / 2 ^ 51"
proof -
  have s: "float64 (2 * np_pi / 999) = 906408841100741 / 2 ^ 57"
    using float64_eval[of "- 8" "2 * np_pi / 999"] by (simp add: np_pi_def float_simps)
  have p: "float64 (500 * (906408841100741 / 2 ^ 57)) = 7081319071099539 / 2 ^ 51"
    using float64_eval[of 1 "500 * (906408841100741 / 2 ^ 57)"] by (simp add: float_simps)
  have y: "float64 (7081319071099539 / 2 ^ 51 + - np_pi) = 7081319071099 / 2 ^ 51"
    using float64_eval[of "- 9" "7081319071099539 / 2 ^ 51 + - np_pi"]
    by (simp add: np_pi_def float_simps)
  show 0: "buffer_float64 1000 ! 0 = - np_pi"
    using buffer_float64_nth[of 0 1000] by (simp add: float64_np_pi)
  have e: "buffer_float64 1000 ! 500 =
      float64 (float64 (500 * float64 (2 * np_pi / 999)) + - np_pi)"
    using buffer_float64_nth[of 500 1000] by simp
  show 500: "buffer_float64 1000 ! 500 = 7081319071099 / 2 ^ 51"
    by (simp only: e s p y)
  have "float64 (np_pi + 7081319071099 / 2 ^ 51) = 7081319071099539 / 2 ^ 51"
    using float64_exact[of "7081319071099539 / 2 ^ 51" 7081319071099539 "- 51"]
    by (simp add: np_pi_def powr_minus_divide)
  then show "float64 (\<bar>buffer_float64 1000 ! 0\<bar> + \<bar>buffer_float64 1000 ! 500\<bar>)
               = 7081319071099539 / 2 ^ 51"
    unfolding 0 500 using np_pi_pos by simp
qed

lemma shape_diamond_line [simp]: "map length (diamond_line n) = replicate n n"
  by (simp add: diamond_line_def map_replicate_const[symmetric] comp_def)
    (metis length_upt map_replicate_const minus_nat.diff_0)

lemma shape_diamond_filter [simp]: "map length (diamond_filter n flag) = replicate n n"
  by (simp add: diamond_filter_def comp_def)
     (metis length_upt map_replicate_const minus_nat.diff_0)

lemma get_spectral_weight_unfold:
  "get_spectral_weight omega eta (e0 # es) flag =
     (if eta = 0 \<and> (\<exists>e \<in> set (e0 # es). \<exists>row \<in> set e. omega \<in> set row)
      then Inl Unmodelled_nonfinite
      else if \<not> (\<forall>e \<in> set (e0 # es). same_shape (diamond_filter (length e0) flag) e)
      then Inl Unmodelled_shapes
      else Inr (map (weight_slice omega eta (diamond_filter (length e0) flag)) (e0 # es),
                diamond_line (length e0)))"
  unfolding get_spectral_weight_def list.case Let_def linspace_buffer_float64 sum.case
    diamond_filter_def[symmetric] diamond_line_def[symmetric] weight_slice_def[abs_def] map_map comp_def
  by (rule refl)

subsection \<open>Square arrays\<close>

lemma square_length: "square R a \<Longrightarrow> length a = R"
  unfolding square_def by (metis length_map length_replicate)

lemma square_row: "square R a \<Longrightarrow> i < R \<Longrightarrow> length (a ! i) = R"
  unfolding square_def by (metis length_map length_replicate nth_map nth_replicate)

lemma square_tab [simp]: "square R (tab R f)"
  by (simp add: square_def tab_def comp_def) (metis length_upt map_replicate_const minus_nat.diff_0)

lemma length_tab [simp]: "length (tab R f) = R"
  by (simp add: tab_def)

lemma tab_eq_Nil [simp]: "tab R f = [] \<longleftrightarrow> R = 0"
  by (simp add: tab_def)

lemma tab_nth [simp]: "i < R \<Longrightarrow> j < R \<Longrightarrow> tab R f ! i ! j = f i j"
  by (simp add: tab_def)

lemma tab_1: "tab (Suc 0) f = [[f 0 0]]"
  by (simp add: tab_def)

lemma tab_cong:
  "(\<And>i j. i < R \<Longrightarrow> j < R \<Longrightarrow> f i j = g i j) \<Longrightarrow> tab R f = tab R g"
  by (simp add: tab_def)

lemma square_eq_tab: "square R a \<Longrightarrow> a = tab R (\<lambda>i j. a ! i ! j)"
proof (rule nth_equalityI)
  assume sq: "square R a"
  show len: "length a = length (tab R (\<lambda>i j. a ! i ! j))"
    using square_length[OF sq] by (simp add: tab_def)
  fix i
  assume "i < length a"
  then have i: "i < R"
    using square_length[OF sq] by simp
  show "a ! i = tab R (\<lambda>i j. a ! i ! j) ! i"
  proof (rule nth_equalityI)
    show "length (a ! i) = length (tab R (\<lambda>i j. a ! i ! j) ! i)"
      using square_row[OF sq i] i by (simp add: tab_def)
    fix j
    assume "j < length (a ! i)"
    then have "j < R"
      using square_row[OF sq i] by simp
    with i show "a ! i ! j = tab R (\<lambda>i j. a ! i ! j) ! i ! j"
      by simp
  qed
qed

lemma square_same_shape: "square R a \<Longrightarrow> square R b \<Longrightarrow> same_shape a b"
  by (simp add: square_def same_shape_def)

lemma map2_same: "map2 h (map F xs) (map G xs) = map (\<lambda>x. h (F x) (G x)) xs"
  by (simp add: zip_map_map zip_same_conv_map)

lemma tab_binop: "map2 (map2 h) (tab R f) (tab R g) = tab R (\<lambda>i j. h (f i j) (g i j))"
  by (simp add: tab_def map2_same)

lemma tab_unop: "map (map u) (tab R f) = tab R (\<lambda>i j. u (f i j))"
  by (simp add: tab_def comp_def)

lemmas tab_ops_real =
  tab_unop[of "\<lambda>x::real. s * x" for s, folded scal_mul_def]
  tab_unop[of "\<lambda>x::real. x ^ n" for n, folded np_pow_def]
  tab_binop[of "(+) :: real \<Rightarrow> real \<Rightarrow> real", folded np_add_def]
  tab_binop[of "(-) :: real \<Rightarrow> real \<Rightarrow> real", folded np_sub_def]
  tab_binop[of "(*) :: real \<Rightarrow> real \<Rightarrow> real", folded np_mul_def]

lemma np_sum_tab: "np_sum (tab R f) = grid_sum R f"
  by (simp add: np_sum_def tab_def grid_sum_def comp_def sum_list_sum_nth atLeast0LessThan)

lemma grid_sum_1: "grid_sum (Suc 0) f = f 0 0"
  by (simp add: grid_sum_def)

lemma grid_sum_zero_slice:
  "0 < n \<Longrightarrow> grid_sum R (\<lambda>i j. c i j * (replicate R (replicate R 0) ! i ! j) ^ n) = 0"
  by (simp add: grid_sum_def zero_power)

lemma pointwise_square:
  assumes "square R kx" "square R ky"
  shows "pointwise f kx ky = tab R (\<lambda>i j. f (kx ! i ! j) (ky ! i ! j))"
proof -
  have "pointwise f (tab R (\<lambda>i j. kx ! i ! j)) (tab R (\<lambda>i j. ky ! i ! j))
        = tab R (\<lambda>i j. f (kx ! i ! j) (ky ! i ! j))"
    unfolding pointwise_def by (rule tab_binop)
  then show ?thesis
    by (simp only: square_eq_tab[OF assms(1), symmetric] square_eq_tab[OF assms(2), symmetric])
qed

lemma np_pow_square:
  assumes "square R a"
  shows "np_pow a n = tab R (\<lambda>i j. (a ! i ! j) ^ n)"
proof -
  have "np_pow (tab R (\<lambda>i j. a ! i ! j)) n = tab R (\<lambda>i j. (a ! i ! j) ^ n)"
    by (simp add: tab_ops_real)
  then show ?thesis
    by (simp only: square_eq_tab[OF assms, symmetric])
qed

lemma square_np_pow [simp]: "square R (np_pow a n) = square R a"
  by (simp add: square_def np_pow_def comp_def)

subsection \<open>The spectral weight of square slices\<close>

lemma diamond_filter_tab:
  "diamond_filter n flag =
     tab n (\<lambda>i j. if flag
                   then (if float64 (\<bar>buffer_float64 n ! i\<bar> + \<bar>buffer_float64 n ! j\<bar>) \<le> np_pi
                         then 1 else 0)
                   else 1)"
  by (auto simp: diamond_filter_def tab_def list_eq_iff_nth_eq)

lemma diamond_line_tab:
  "diamond_line n =
     tab n (\<lambda>i j. if py_round (float64 (\<bar>buffer_float64 n ! i\<bar> + \<bar>buffer_float64 n ! j\<bar>)) 2
                      = py_round np_pi 2
                   then 1 else 0)"
  by (simp add: diamond_line_def tab_def)

lemma weight_entry:
  "Im (of_real (- 1 / pi) * (1 / (of_real omega + of_real eta * \<i> - of_real x)))
     = spec_spectral_weight omega eta x"
proof -
  have "Im (of_real c * z) = c * Im z" for c :: real and z :: complex
    by simp
  then show ?thesis
    unfolding spec_spectral_weight_def by (simp only: mult.commute[of \<i>] minus_divide_left)
qed

lemma weight_slice_tab:
  assumes "square n e"
  shows "weight_slice omega eta (tab n f) e =
           tab n (\<lambda>i j. f i j * spec_spectral_weight omega eta (e ! i ! j))"
proof -
  have "weight_slice omega eta (tab n f) (tab n g) =
           tab n (\<lambda>i j. f i j * spec_spectral_weight omega eta (g i j))" for g
    unfolding weight_slice_def
    by (simp only: tab_unop tab_ops_real weight_entry)
  from this[of "\<lambda>i j. e ! i ! j"] show ?thesis
    by (simp only: square_eq_tab[OF assms, symmetric])
qed

lemma get_spectral_weight_square:
  assumes "eta \<noteq> 0" and "E \<noteq> []" and "list_all (square (length (hd E))) E"
  shows "get_spectral_weight omega eta E flag =
           Inr (map (\<lambda>e. tab (length (hd E)) (\<lambda>i j.
                  (if flag
                   then (if float64 (\<bar>buffer_float64 (length (hd E)) ! i\<bar>
                                     + \<bar>buffer_float64 (length (hd E)) ! j\<bar>) \<le> np_pi
                         then 1 else 0)
                   else 1) * spec_spectral_weight omega eta (e ! i ! j))) E,
                diamond_line (length (hd E)))"
proof -
  obtain e0 es where E: "E = e0 # es"
    using assms(2) by (cases E) auto
  define n where "n = length e0"
  have sq: "\<forall>e \<in> set (e0 # es). square n e"
    using assms(3) unfolding E n_def by (simp add: list_all_iff)
  then have sh: "\<forall>e \<in> set (e0 # es). same_shape (diamond_filter n flag) e"
    by (auto simp: square_def same_shape_def)
  have "map (weight_slice omega eta (diamond_filter n flag)) (e0 # es)
        = map (\<lambda>e. tab n (\<lambda>i j.
                  (if flag
                   then (if float64 (\<bar>buffer_float64 n ! i\<bar> + \<bar>buffer_float64 n ! j\<bar>) \<le> np_pi
                         then 1 else 0)
                   else 1) * spec_spectral_weight omega eta (e ! i ! j))) (e0 # es)"
    unfolding diamond_filter_tab using sq by (intro map_cong refl weight_slice_tab) blast
  then show ?thesis
    unfolding E get_spectral_weight_unfold list.sel n_def[symmetric]
    using assms(1) sh by simp
qed

lemma spec_weight_unit: "spec_spectral_weight 0 1 0 = 1 / pi"
  by (simp add: spec_spectral_weight_def)

lemma square_weight_slice:
  "square R e \<Longrightarrow> square R (weight_slice omega eta (diamond_filter R flag) e)"
proof -
  assume "square R e"
  then have "map length (map (map Im) (map (map (\<lambda>x. of_real (- 1 / pi) * (1 / (of_real omega + of_real eta * \<i> - of_real x)))) e)) = replicate R R"
    by (simp add: square_def comp_def)
  then show ?thesis
    unfolding weight_slice_def square_def np_mul_def
    using shape_map2[of "diamond_filter R flag" _ "(*)"] by simp
qed

subsection \<open>What the constructor builds\<close>

lemma meshgrid_tab:
  "length ks = R \<Longrightarrow> meshgrid ks ks = (tab R (\<lambda>i j. ks ! j), tab R (\<lambda>i j. ks ! i))"
  by (auto simp: meshgrid_def tab_def list_eq_iff_nth_eq)

lemma get_energies_grid:
  "get_energies (t, tp, tpp) (tab R (\<lambda>i j. k_samples R ! j)) (tab R (\<lambda>i j. k_samples R ! i)) ms
   = Inr (grid_energies (t, tp, tpp) R ms, grid_derivs (t, tp, tpp) R)"
  unfolding get_energies_pointwise[OF square_same_shape[OF square_tab square_tab]]
    pointwise_square[OF square_tab square_tab] grid_energies_def grid_derivs_def
  by (auto intro!: tab_cong simp: Let_def)

lemma linspace_int: "0 \<le> n \<Longrightarrow> linspace (- pi) pi n = Inr (k_samples (nat n))"
  using linspace_k_samples[of "nat n"] by simp

lemma square_grid_energies: "list_all (square R) (grid_energies hps R ms)"
  by (simp add: grid_energies_def list_all_iff)

lemma same_shape_filter_grid:
  "e \<in> set (grid_energies hps R ms) \<Longrightarrow> same_shape (diamond_filter R flag) e"
  using square_grid_energies[of R hps ms]
  by (auto simp: list_all_iff square_def same_shape_def)

lemma grid_energies_Nil [simp]: "grid_energies hps R ms = [] \<longleftrightarrow> ms = []"
  by (simp add: grid_energies_def)

lemma square_weight_slices:
  "list_all (square R) (map (weight_slice omega eta (diamond_filter R flag)) (grid_energies hps R ms))"
  using square_grid_energies[of R hps ms]
  by (simp add: list_all_iff square_weight_slice)

lemma square_grid_derivs:
  "square R (dE_dx (grid_derivs hps R))" "square R (ddE_dxx (grid_derivs hps R))"
  "square R (dE_dy (grid_derivs hps R))" "square R (ddE_dyy (grid_derivs hps R))"
  "square R (ddE_dxdy (grid_derivs hps R))"
  by (cases hps; simp add: grid_derivs_def)+

lemma get_spectral_weight_grid:
  "get_spectral_weight omega eta (grid_energies hps R ms) flag =
     (if ms = [] then Inl IndexError
      else if eta = 0 \<and> (\<exists>e \<in> set (grid_energies hps R ms). \<exists>row \<in> set e. omega \<in> set row)
      then Inl Unmodelled_nonfinite
      else Inr (map (weight_slice omega eta (diamond_filter R flag)) (grid_energies hps R ms),
                diamond_line R))"
proof (cases ms)
  case Nil
  then show ?thesis by (simp add: grid_energies_def get_spectral_weight_def)
next
  case (Cons mu ms')
  then obtain e0 es where E: "grid_energies hps R ms = e0 # es" and e0: "length e0 = R"
    by (simp add: grid_energies_def tab_def)
  have "\<forall>e \<in> set (e0 # es). same_shape (diamond_filter (length e0) flag) e"
    using same_shape_filter_grid[of _ hps R ms flag] unfolding E e0 by blast
  then show ?thesis
    using Cons unfolding E get_spectral_weight_unfold e0 by simp
qed

lemma arange_list_unit: "arange_list 0 1 1 = [0]"
  by (simp add: arange_list_def)

lemma arange_list_two_steps: "arange_list 3 6 2 = [3, 5]"
proof -
  have "\<lceil>(3::real) / 2\<rceil> = 2"
    by (simp add: ceiling_eq_iff)
  then show ?thesis
    by (simp add: arange_list_def upt_rec)
qed

lemma Model_init_synthetic:
  "Model_init arcs (t, tp, tpp) broadening omega (start, stop, step) resolution False flag =
     (if step = 0 then Inl ZeroDivisionError
      else if resolution = 0 then Inl ZeroDivisionError
      else if resolution < 0 then Inl ValueError
      else if arange_list start stop step = [] then Inl IndexError
      else if broadening = 0 \<and>
              (\<exists>e \<in> set (grid_energies (t, tp, tpp) (nat resolution) (arange_list start stop step)).
                 \<exists>row \<in> set e. omega \<in> set row)
      then Inl Unmodelled_nonfinite
      else Inr \<lparr>self_w = omega, self_use_peters = False, self_eta = broadening,
                self_norm = float64 (1 / of_int (resolution ^ 2)), self_hops = (t, tp, tpp),
                self_mus = arange_list start stop step,
                self_k_x = tab (nat resolution) (\<lambda>i j. k_samples (nat resolution) ! j),
                self_k_y = tab (nat resolution) (\<lambda>i j. k_samples (nat resolution) ! i),
                self_E = grid_energies (t, tp, tpp) (nat resolution) (arange_list start stop step),
                self_dEs = grid_derivs (t, tp, tpp) (nat resolution),
                self_A = map (weight_slice omega broadening (diamond_filter (nat resolution) flag))
                           (grid_energies (t, tp, tpp) (nat resolution) (arange_list start stop step)),
                self_diamond = Some (diamond_line (nat resolution))\<rparr>)"
proof (cases "step = 0 \<or> resolution = 0")
  case True
  then show ?thesis by (auto simp: Model_init_def arange_def)
next
  case False
  show ?thesis
  proof (cases "resolution < 0")
    case True
    then show ?thesis using False by (simp add: Model_init_def arange_def linspace_def)
  next
    case pos: False
    then have l: "linspace (- pi) pi resolution = Inr (k_samples (nat resolution))"
      by (simp add: linspace_int)
    show ?thesis
      using False pos
      by (simp add: Model_init_def arange_def l meshgrid_tab get_energies_grid
          get_spectral_weight_grid arange_list_def[symmetric]) blast
  qed
qed

lemma Model_init_peters:
  "Model_init arcs (t, tp, tpp) broadening omega mus3 resolution True flag =
     Inr \<lparr>self_w = omega, self_use_peters = True, self_eta = 1 / 10,
          self_norm = float64 (1 / 200 ^ 2), self_hops = (1, - 3 / 10, 2 / 10),
          self_mus = [- 13 / 10, - 1, - 75 / 100, - 4 / 10, 0],
          self_k_x = tab 200 (\<lambda>i j. k_samples 200 ! j),
          self_k_y = tab 200 (\<lambda>i j. k_samples 200 ! i),
          self_E = grid_energies (t, tp, tpp) 200 [- 13 / 10, - 1, - 75 / 100, - 4 / 10, 0],
          self_dEs = grid_derivs (t, tp, tpp) 200,
          self_A = map snd arcs, self_diamond = None\<rparr>"
proof -
  have l: "linspace (- pi) pi 200 = Inr (k_samples 200)"
    using linspace_int[of 200] by simp
  show ?thesis
    by (simp add: Model_init_def l meshgrid_tab get_energies_grid Let_def)
qed

text \<open>A reference-data model built from one data array, all zero.\<close>

lemma peters_zero_data:
  "\<exists>m. Model_init [(''N32'', replicate 200 (replicate 200 0))] (1, - 3 / 10, 2 / 10) 1 0
          (0, 1, 1) 1 True False = Inr m
       \<and> length (self_k_x m) = 200 \<and> self_A m = [replicate 200 (replicate 200 0)]"
  by (simp add: Model_init_peters)

lemma peters_zero_data_ok:
  "True \<longrightarrow> [(''N32'', replicate 200 (replicate 200 (0::real)))] \<noteq> []
        \<and> list_all (square 200) (map snd [(''N32'', replicate 200 (replicate 200 (0::real)))])"
  by (simp add: square_def)

lemmas small_model = Model_init_synthetic arange_list_unit k_samples_1 tab_1 grid_sum_1
  grid_energies_def grid_derivs_def spec_E0_def

lemma Model_init_shapes:
  assumes "Model_init arcs hps broadening omega mus3 resolution peters flag = Inr m"
    and "peters \<longrightarrow> arcs \<noteq> [] \<and> list_all (square 200) (map snd arcs)"
  shows "model_shapes (length (self_k_x m)) m"
    and "0 < length (self_k_x m)"
    and "list_all (square (length (self_k_x m))) (self_E m)"
    and "length (self_E m) = length (self_mus m)"
    and "self_norm m = float64 (1 / (real (length (self_k_x m)))\<^sup>2)"
    and "self_E m = grid_energies hps (length (self_k_x m)) (self_mus m)"
proof -
  obtain t tp tpp where hps: "hps = (t, tp, tpp)"
    by (cases hps) auto
  obtain start stop step where mus3: "mus3 = (start, stop, step)"
    by (cases mus3) auto
  have "model_shapes (length (self_k_x m)) m \<and> 0 < length (self_k_x m)
      \<and> list_all (square (length (self_k_x m))) (self_E m)
      \<and> length (self_E m) = length (self_mus m)
      \<and> self_norm m = float64 (1 / (real (length (self_k_x m)))\<^sup>2)
      \<and> self_E m = grid_energies hps (length (self_k_x m)) (self_mus m)"
  proof (cases peters)
    case True
    have m: "m = \<lparr>self_w = omega, self_use_peters = True, self_eta = 1 / 10,
          self_norm = float64 (1 / 200 ^ 2), self_hops = (1, - 3 / 10, 2 / 10),
          self_mus = [- 13 / 10, - 1, - 75 / 100, - 4 / 10, 0],
          self_k_x = tab 200 (\<lambda>i j. k_samples 200 ! j),
          self_k_y = tab 200 (\<lambda>i j. k_samples 200 ! i),
          self_E = grid_energies (t, tp, tpp) 200 [- 13 / 10, - 1, - 75 / 100, - 4 / 10, 0],
          self_dEs = grid_derivs (t, tp, tpp) 200,
          self_A = map snd arcs, self_diamond = None\<rparr>"
      using assms(1) True by (simp add: hps Model_init_peters)
    show ?thesis
      using True assms(2) square_grid_energies[of 200 "(t, tp, tpp)"]
      unfolding m hps
      by (simp add: model_shapes_def square_grid_derivs grid_energies_def)
  next
    case False
    have "Model_init arcs (t, tp, tpp) broadening omega (start, stop, step) resolution
            False flag = Inr m"
      using assms(1) False by (simp add: hps mus3)
    note eq = this[unfolded Model_init_synthetic]
    from eq have res: "0 < resolution" and ms: "arange_list start stop step \<noteq> []"
      by (auto split: if_splits)
    from eq have m: "m = \<lparr>self_w = omega, self_use_peters = False, self_eta = broadening,
                self_norm = float64 (1 / of_int (resolution ^ 2)), self_hops = (t, tp, tpp),
                self_mus = arange_list start stop step,
                self_k_x = tab (nat resolution) (\<lambda>i j. k_samples (nat resolution) ! j),
                self_k_y = tab (nat resolution) (\<lambda>i j. k_samples (nat resolution) ! i),
                self_E = grid_energies (t, tp, tpp) (nat resolution) (arange_list start stop step),
                self_dEs = grid_derivs (t, tp, tpp) (nat resolution),
                self_A = map (weight_slice omega broadening (diamond_filter (nat resolution) flag))
                           (grid_energies (t, tp, tpp) (nat resolution) (arange_list start stop step)),
                self_diamond = Some (diamond_line (nat resolution))\<rparr>"
      by (auto split: if_splits)
    have n: "real (nat resolution) = of_int resolution"
      using res by simp
    show ?thesis
      using res ms square_grid_energies[of "nat resolution" "(t, tp, tpp)"]
        square_weight_slices[of "nat resolution" omega broadening flag "(t, tp, tpp)"]
      unfolding m hps
      by (simp add: model_shapes_def square_grid_derivs n) (simp add: grid_energies_def)
  qed
  then show "model_shapes (length (self_k_x m)) m"
    and "0 < length (self_k_x m)"
    and "list_all (square (length (self_k_x m))) (self_E m)"
    and "length (self_E m) = length (self_mus m)"
    and "self_norm m = float64 (1 / (real (length (self_k_x m)))\<^sup>2)"
    and "self_E m = grid_energies hps (length (self_k_x m)) (self_mus m)"
    by blast+
qed

lemma Model_init_energies:
  assumes "Model_init arcs hps broadening omega mus3 resolution peters flag = Inr m"
  shows "0 < length (self_k_x m)"
    and "self_norm m = float64 (1 / (real (length (self_k_x m)))\<^sup>2)"
    and "self_E m = grid_energies hps (length (self_k_x m)) (self_mus m)"
proof -
  obtain t tp tpp where hps: "hps = (t, tp, tpp)"
    by (cases hps) auto
  obtain start stop step where mus3: "mus3 = (start, stop, step)"
    by (cases mus3) auto
  have "0 < length (self_k_x m)
      \<and> self_norm m = float64 (1 / (real (length (self_k_x m)))\<^sup>2)
      \<and> self_E m = grid_energies hps (length (self_k_x m)) (self_mus m)"
  proof (cases peters)
    case True
    then show ?thesis
      using assms by (auto simp: hps Model_init_peters)
  next
    case False
    have "Model_init arcs (t, tp, tpp) broadening omega (start, stop, step) resolution
            False flag = Inr m"
      using assms False by (simp add: hps mus3)
    note eq = this[unfolded Model_init_synthetic]
    from eq have res: "0 < resolution"
      by (auto split: if_splits)
    then have n: "real (nat resolution) = of_int resolution"
      by simp
    from eq res show ?thesis
      unfolding hps by (auto split: if_splits simp: n)
  qed
  then show "0 < length (self_k_x m)"
    and "self_norm m = float64 (1 / (real (length (self_k_x m)))\<^sup>2)"
    and "self_E m = grid_energies hps (length (self_k_x m)) (self_mus m)"
    by blast+
qed

subsection \<open>The transport sums of a model with square arrays\<close>

lemma mul_slices_square:
  assumes "square R d" and "a \<noteq> []" and "list_all (square R) a"
  shows "mul_slices d a = Inr (map (np_mul d) a)"
  using assms by (auto simp: mul_slices_def list_all_iff intro: square_same_shape)

lemma np_sum_mul_pow:
  assumes "square R a"
  shows "np_sum (np_mul (tab R C) (np_pow a n)) = grid_sum R (\<lambda>i j. C i j * (a ! i ! j) ^ n)"
proof -
  have "np_sum (np_mul (tab R C) (np_pow (tab R (\<lambda>i j. a ! i ! j)) n))
        = grid_sum R (\<lambda>i j. C i j * (a ! i ! j) ^ n)"
    by (simp add: tab_ops_real np_sum_tab)
  then show ?thesis
    by (simp only: square_eq_tab[OF assms, symmetric])
qed

lemma sigma_sums:
  assumes "a \<noteq> []" and "list_all (square R) a"
  shows "(case mul_slices (tab R C) (map (\<lambda>s. np_pow s n) a) of
            Inl err \<Rightarrow> Inl err
          | Inr sigma \<Rightarrow> Inr (map (\<lambda>sig. 2 * coeff * np_sum sig) sigma))
         = Inr (map (\<lambda>s. 2 * coeff * grid_sum R (\<lambda>i j. C i j * (s ! i ! j) ^ n)) a)"
proof -
  have "mul_slices (tab R C) (map (\<lambda>s. np_pow s n) a)
        = Inr (map (np_mul (tab R C)) (map (\<lambda>s. np_pow s n) a))"
    using assms by (intro mul_slices_square[of R]) (simp_all add: list_all_iff)
  moreover have "np_sum (np_mul (tab R C) (np_pow s n))
                 = grid_sum R (\<lambda>i j. C i j * (s ! i ! j) ^ n)" if "s \<in> set a" for s
    using that assms(2) by (intro np_sum_mul_pow) (simp add: list_all_iff)
  ultimately show ?thesis by simp
qed

lemma sigma_ii_shapes:
  assumes "model_shapes R m"
  shows "sigma_ii m ''x'' =
           Inr (map (\<lambda>s. 2 * ((- e_charge) ^ 2 * pi) *
                  grid_sum R (\<lambda>i j. (dE_dx (self_dEs m) ! i ! j) ^ 2 * (s ! i ! j) ^ 2))
                  (self_A m))"
    and "sigma_ii m ''y'' =
           Inr (map (\<lambda>s. 2 * ((- e_charge) ^ 2 * pi) *
                  grid_sum R (\<lambda>i j. (dE_dy (self_dEs m) ! i ! j) ^ 2 * (s ! i ! j) ^ 2))
                  (self_A m))"
proof -
  have A: "self_A m \<noteq> []" "list_all (square R) (self_A m)"
    using assms by (simp_all add: model_shapes_def)
  have x: "np_pow (dE_dx (self_dEs m)) 2 = tab R (\<lambda>i j. (dE_dx (self_dEs m) ! i ! j) ^ 2)"
    and y: "np_pow (dE_dy (self_dEs m)) 2 = tab R (\<lambda>i j. (dE_dy (self_dEs m) ! i ! j) ^ 2)"
    using assms by (simp_all add: model_shapes_def np_pow_square)
  show "sigma_ii m ''x'' =
           Inr (map (\<lambda>s. 2 * ((- e_charge) ^ 2 * pi) *
                  grid_sum R (\<lambda>i j. (dE_dx (self_dEs m) ! i ! j) ^ 2 * (s ! i ! j) ^ 2))
                  (self_A m))"
    unfolding sigma_ii_def Let_def by (simp add: x sigma_sums[OF A])
  show "sigma_ii m ''y'' =
           Inr (map (\<lambda>s. 2 * ((- e_charge) ^ 2 * pi) *
                  grid_sum R (\<lambda>i j. (dE_dy (self_dEs m) ! i ! j) ^ 2 * (s ! i ! j) ^ 2))
                  (self_A m))"
    unfolding sigma_ii_def Let_def by (simp add: y sigma_sums[OF A])
qed

lemma sigma_ij_shapes:
  assumes "model_shapes R m"
  shows "sigma_ij m =
           Inr (map (\<lambda>s. 2 * ((- e_charge) ^ 3 * pi\<^sup>2 / 3) *
                  grid_sum R (\<lambda>i j.
                    (- 2 * dE_dx (self_dEs m) ! i ! j * dE_dy (self_dEs m) ! i ! j
                         * ddE_dxdy (self_dEs m) ! i ! j
                     + (dE_dx (self_dEs m) ! i ! j) ^ 2 * ddE_dyy (self_dEs m) ! i ! j
                     + (dE_dy (self_dEs m) ! i ! j) ^ 2 * ddE_dxx (self_dEs m) ! i ! j)
                    * (s ! i ! j) ^ 3))
                  (self_A m))"
proof -
  define d where "d = self_dEs m"
  have sq: "square R (dE_dx d)" "square R (ddE_dxx d)" "square R (dE_dy d)"
    "square R (ddE_dyy d)" "square R (ddE_dxdy d)"
    and A: "self_A m \<noteq> []" "list_all (square R) (self_A m)"
    using assms by (simp_all add: model_shapes_def d_def)
  have guard: "same_shape (dE_dx d) (dE_dy d) \<and> same_shape (dE_dx d) (ddE_dxdy d) \<and>
               same_shape (dE_dx d) (ddE_dyy d) \<and> same_shape (dE_dx d) (ddE_dxx d)"
    using sq by (simp add: square_same_shape)
  have gen: "np_add
          (np_add
            (np_mul (np_mul (scal_mul (- 2) ax) ay) axy)
            (np_mul (np_pow ax 2) ayy))
          (np_mul (np_pow ay 2) axx)
        = tab R (\<lambda>i j. - 2 * fx i j * fy i j * fxy i j + (fx i j) ^ 2 * fyy i j
                        + (fy i j) ^ 2 * fxx i j)"
    if "ax = tab R fx" "axx = tab R fxx" "ay = tab R fy" "ayy = tab R fyy" "axy = tab R fxy"
    for ax axx ay ayy axy fx fxx fy fyy fxy
    unfolding that by (simp add: tab_ops_real)
  have c: "np_add
          (np_add
            (np_mul (np_mul (scal_mul (- 2) (dE_dx d)) (dE_dy d)) (ddE_dxdy d))
            (np_mul (np_pow (dE_dx d) 2) (ddE_dyy d)))
          (np_mul (np_pow (dE_dy d) 2) (ddE_dxx d))
        = tab R (\<lambda>i j. - 2 * dE_dx d ! i ! j * dE_dy d ! i ! j * ddE_dxdy d ! i ! j
                        + (dE_dx d ! i ! j) ^ 2 * ddE_dyy d ! i ! j
                        + (dE_dy d ! i ! j) ^ 2 * ddE_dxx d ! i ! j)"
    by (rule gen[OF sq[THEN square_eq_tab]])
  show ?thesis
    unfolding sigma_ij_def Let_def d_def[symmetric]
    using guard by (simp add: c sigma_sums[OF A])
qed



subsection \<open>The density\<close>

lemma list_all2_concat_rows:
  "(\<And>i j. i \<in> set is \<Longrightarrow> j \<in> set js \<Longrightarrow> f i j \<le> (g i j :: real)) \<Longrightarrow>
   list_all2 (\<le>) (concat (map (\<lambda>i. map (\<lambda>j. f i j) js) is))
                    (concat (map (\<lambda>i. map (\<lambda>j. g i j) js) is))"
proof (induction "is")
  case Nil
  then show ?case by simp
next
  case (Cons i "is")
  have "list_all2 (\<le>) (map (\<lambda>j. f i j) js) (map (\<lambda>j. g i j) js)"
    using Cons.prems by (simp add: list_all2_map1 list_all2_map2 list_all2_same)
  then show ?case
    using Cons by (simp add: list_all2_appendI)
qed

lemma float128_sum_mono:
  assumes "\<And>i j. i < R \<Longrightarrow> j < R \<Longrightarrow> f i j \<le> g i j"
  shows "float128_sum (tab R f) \<le> float128_sum (tab R g)"
  unfolding float128_sum_def tab_def
  by (intro foldl_float128_mono list_all2_concat_rows) (simp_all add: assms)

lemma length_concat_tab: "length (concat (tab R f)) = R * R"
  by (simp add: tab_def length_concat comp_def sum_list_triv)

lemma set_concat_tab: "x \<in> set (concat (tab R f)) \<Longrightarrow> \<exists>i < R. \<exists>j < R. x = f i j"
  by (auto simp: tab_def; blast)

lemma float128_sum_bounds:
  assumes "\<And>i j. i < R \<Longrightarrow> j < R \<Longrightarrow> 0 \<le> f i j \<and> f i j \<le> 2" and "2 * (R * R) < 2 ^ 64"
  shows "0 \<le> float128_sum (tab R f)" and "float128_sum (tab R f) \<le> 2 * real (R * R)"
proof -
  have "\<forall>x \<in> set (concat (tab R f)). 0 \<le> x \<and> x \<le> 2"
    using set_concat_tab[of _ R f] assms(1) by blast
  from foldl_float128_bounds[OF this, of 0 0] assms(2)
  show "0 \<le> float128_sum (tab R f)" and "float128_sum (tab R f) \<le> 2 * real (R * R)"
    by (simp_all add: float128_sum_def length_concat_tab)
qed

lemma float128_sum_full:
  assumes "\<And>i j. i < R \<Longrightarrow> j < R \<Longrightarrow> f i j = 2" and "2 * (R * R) < 2 ^ 64"
  shows "float128_sum (tab R f) = 2 * real (R * R)"
proof -
  have "\<forall>x \<in> set (concat (tab R f)). x = 2"
    using set_concat_tab[of _ R f] assms(1) by blast
  from foldl_float128_full[OF this, of 0 0] assms(2)
  show ?thesis
    by (simp add: float128_sum_def length_concat_tab)
qed

lemma get_density_nth:
  "k < length (self_E m) \<Longrightarrow>
   get_density m ! k =
     float128 (self_norm m * float128_sum (map (map (fermi_dirac_entry 100)) (self_E m ! k)))"
  by (simp add: get_density_def Let_def)

lemma get_density_grid:
  assumes "self_E m = grid_energies hps R (self_mus m)"
  shows "get_density m =
           map (\<lambda>mu. float128 (self_norm m * float128_sum (tab R (\<lambda>i j.
                  fermi_dirac_entry 100
                    (spec_E0 hps (k_samples R ! j) (k_samples R ! i) - mu)))))
               (self_mus m)"
  unfolding get_density_def Let_def assms grid_energies_def
  by (simp add: tab_unop comp_def)

text \<open>
  With hoppings \<open>(0, 0, 0)\<close> every energy is minus the chemical potential; where that is
  at most \<open>-1\<close> every term is \<open>2\<close> and the sum is exact.
\<close>

lemma arange_list_one: "arange_list mu (mu + 1) 1 = [mu]"
  by (simp add: arange_list_def)

lemma full_band_model:
  assumes "0 < R"
  shows "\<exists>m. Model_init [] (0, 0, 0) 1 0 (mu, mu + 1, 1) (int R) False False = Inr m
       \<and> length (self_k_x m) = R \<and> self_mus m = [mu]
       \<and> self_E m = grid_energies (0, 0, 0) R [mu]
       \<and> self_norm m = float64 (1 / real (R * R))"
  using assms by (simp add: Model_init_synthetic arange_list_one power2_eq_square)

lemma full_band_density:
  assumes "self_E m = grid_energies (0, 0, 0) R [mu]" and "self_mus m = [mu]"
    and "1 \<le> mu" and "2 * (R * R) < 2 ^ 64"
  shows "get_density m = [float128 (self_norm m * (2 * real (R * R)))]"
proof -
  have "fermi_dirac_entry 100 (spec_E0 (0, 0, 0) x y - mu) = 2" for x y
    using assms(3) by (intro fermi_dirac_entry_full) (simp add: spec_E0_def)
  then have "float128_sum (tab R (\<lambda>i j. fermi_dirac_entry 100
      (spec_E0 (0, 0, 0) (k_samples R ! j) (k_samples R ! i) - mu))) = 2 * real (R * R)"
    using assms(4) by (intro float128_sum_full) simp_all
  then show ?thesis
    using get_density_grid[of m "(0, 0, 0)" R] assms(1,2) by simp
qed

lemma fermi_dirac_entry_half:
  assumes "0 \<le> x"
  shows "fermi_dirac_entry 100 x \<le> 1"
proof -
  define ex where "ex = float128 (exp (float128 (100 * x)))"
  have "float128 0 \<le> float128 (100 * x)"
    using assms by (intro float128_mono) simp
  then have "exp 0 \<le> exp (float128 (100 * x))"
    by simp
  then have "float128 1 \<le> ex"
    unfolding ex_def by (intro float128_mono) simp
  then have "float128 (1 + 1) \<le> float128 (1 + ex)"
    by (intro float128_mono) simp
  then have d: "2 \<le> float128 (1 + ex)"
    by simp
  then have "2 / float128 (1 + ex) \<le> 1"
    by simp
  then have "float128 (2 / float128 (1 + ex)) \<le> float128 1"
    by (rule float128_mono)
  then show ?thesis
    by (simp add: fermi_dirac_entry_def Let_def ex_def[symmetric])
qed

subsection \<open>A model on a grid of five samples\<close>

text \<open>
  The synthetic model with hoppings \<open>(1, 0, 0)\<close>, broadening \<open>1\<close>, frequency \<open>0\<close>, the single
  chemical potential \<open>0\<close> and resolution \<open>5\<close>: its grid is \<open>-\<pi>, -\<pi>/2, 0, \<pi>/2, \<pi>\<close> on both
  axes, and its conductivities are computed in closed form.
\<close>

lemma k_samples_5: "k_samples 5 = [- pi, - (pi / 2), 0, pi / 2, pi]"
proof (rule nth_equalityI)
  show "length (k_samples 5) = length [- pi, - (pi / 2), 0, pi / 2, pi]"
    by simp
  fix i
  assume "i < length (k_samples 5)"
  then have "i \<in> {0, 1, 2, 3, 4}"
    by auto
  then show "k_samples 5 ! i = [- pi, - (pi / 2), 0, pi / 2, pi] ! i"
    using k_samples_nth[of i 5] by auto
qed

lemma grid_sum_5:
  "grid_sum 5 f =
     (f 0 0 + f 0 1 + f 0 2 + f 0 3 + f 0 4) + (f 1 0 + f 1 1 + f 1 2 + f 1 3 + f 1 4)
   + (f 2 0 + f 2 1 + f 2 2 + f 2 3 + f 2 4) + (f 3 0 + f 3 1 + f 3 2 + f 3 3 + f 3 4)
   + (f 4 0 + f 4 1 + f 4 2 + f 4 3 + f 4 4)"
proof -
  have "{..<5::nat} = {0, 1, 2, 3, 4}"
    by auto
  then show ?thesis
    by (simp add: grid_sum_def)
qed

lemma spec_weight_broad: "spec_spectral_weight 0 1 x = 1 / (pi * (x\<^sup>2 + 1))"
  by (simp add: spec_spectral_weight_def complex_eq_iff Im_divide power2_eq_square field_simps)

lemma five_model_fields:
  "\<exists>m. Model_init [] (1, 0, 0) 1 0 (0, 1, 1) 5 False False = Inr m
       \<and> length (self_k_x m) = 5 \<and> self_dEs m = grid_derivs (1, 0, 0) 5
       \<and> self_A m = [tab 5 (\<lambda>i j. spec_spectral_weight 0 1
                       (spec_E0 (1, 0, 0) (k_samples 5 ! j) (k_samples 5 ! i) - 0))]
       \<and> self_norm m = float64 (1 / 25)"
  by (simp add: Model_init_synthetic arange_list_unit grid_energies_def
        diamond_filter_tab weight_slice_tab cong: tab_cong)







subsection \<open>One band energy in binary64\<close>

lemma binary64_eval:
  assumes "2 powr of_int e \<le> \<bar>x\<bar>" and "\<bar>x\<bar> < 2 powr of_int (e + 1)"
  shows "binary64 x =
         of_int (round_half_even (x / 2 powr of_int (e - 52))) * 2 powr of_int (e - 52)"
proof -
  have pos: "0 < \<bar>x\<bar>"
    using assms(1) by (smt (verit) powr_gt_zero)
  have "of_int e \<le> log 2 \<bar>x\<bar>"
    using assms(1) pos by (simp add: le_log_iff)
  moreover have "log 2 \<bar>x\<bar> < of_int e + 1"
    using assms(2) pos by (simp add: log_less_iff)
  ultimately have "\<lfloor>log 2 \<bar>x\<bar>\<rfloor> = e"
    by (intro floor_unique) auto
  moreover have "x \<noteq> 0"
    using pos by auto
  ultimately show ?thesis
    by (simp add: binary64_def Let_def)
qed

lemmas binary64_simps = powr_minus_divide powr_numeral round_half_even_def Let_def

text \<open>The double that the literal \<open>-3.6\<close> denotes.\<close>

lemma binary64_literal_36: "binary64 (- 36 / 10) = - 8106479329266893 / 2 ^ 51"
  using binary64_eval[of 1 "- 36 / 10"] by (simp add: binary64_simps)

text \<open>
  The doubles of the literals \<open>1.0\<close>, \<open>-0.3\<close>, \<open>0.2\<close>, and the value of each operation of
  the source at \<open>kx = ky = 0\<close>, \<open>mu = 0.0\<close>.
\<close>

lemma energy_binary64_origin:
  "energy_binary64 (binary64 1, binary64 (- 3 / 10), binary64 (2 / 10)) 0 0 0
     = - 8106479329266892 / 2 ^ 51"
proof -
  have t: "binary64 1 = 1"
    using binary64_eval[of 0 1] by (simp add: binary64_simps)
  have tp: "binary64 (- 3 / 10) = - 5404319552844595 / 2 ^ 54"
    using binary64_eval[of "- 2" "- 3 / 10"] by (simp add: binary64_simps)
  have tpp: "binary64 (2 / 10) = 7205759403792794 / 2 ^ 55"
    using binary64_eval[of "- 3" "2 / 10"] by (simp add: binary64_simps)
  have z1: "f_add 0 0 = 0" and z2: "f_sub 0 0 = 0" and z3: "f_mul 2 0 = 0"
    by (simp_all add: f_add_def f_sub_def f_mul_def binary64_def)
  have c0: "f_cos 0 = 1"
    by (simp add: f_cos_def t)
  have two: "f_add 1 1 = 2"
    unfolding f_add_def using binary64_eval[of 1 "1 + 1"] by (simp add: binary64_simps)
  have a1: "f_mul (- 2) 1 = - 2"
    unfolding f_mul_def using binary64_eval[of 1 "- 2 * 1"] by (simp add: binary64_simps)
  have a: "f_mul (- 2) 2 = - 4"
    unfolding f_mul_def using binary64_eval[of 2 "- 2 * 2"] by (simp add: binary64_simps)
  have b1: "f_mul (- 2) (- 5404319552844595 / 2 ^ 54) = 5404319552844595 / 2 ^ 53"
    unfolding f_mul_def
    using binary64_eval[of "- 1" "- 2 * (- 5404319552844595 / 2 ^ 54)"]
    by (simp add: binary64_simps)
  have b: "f_mul (5404319552844595 / 2 ^ 53) 2 = 5404319552844595 / 2 ^ 52"
    unfolding f_mul_def
    using binary64_eval[of 0 "5404319552844595 / 2 ^ 53 * 2"]
    by (simp add: binary64_simps)
  have c1: "f_mul (- 2) (7205759403792794 / 2 ^ 55) = - 7205759403792794 / 2 ^ 54"
    unfolding f_mul_def
    using binary64_eval[of "- 2" "- 2 * (7205759403792794 / 2 ^ 55)"]
    by (simp add: binary64_simps)
  have c: "f_mul (- 7205759403792794 / 2 ^ 54) 2 = - 7205759403792794 / 2 ^ 53"
    unfolding f_mul_def
    using binary64_eval[of "- 1" "- 7205759403792794 / 2 ^ 54 * 2"]
    by (simp add: binary64_simps)
  have ab: "f_add (- 4) (5404319552844595 / 2 ^ 52) = - 6305039478318694 / 2 ^ 51"
    unfolding f_add_def
    using binary64_eval[of 1 "- 4 + 5404319552844595 / 2 ^ 52"]
    by (simp add: binary64_simps)
  have abc: "f_add (- 6305039478318694 / 2 ^ 51) (- 7205759403792794 / 2 ^ 53)
               = - 8106479329266892 / 2 ^ 51"
    unfolding f_add_def
    using binary64_eval[of 1 "- 6305039478318694 / 2 ^ 51 + - 7205759403792794 / 2 ^ 53"]
    by (simp add: binary64_simps)
  have fin: "f_sub (- 8106479329266892 / 2 ^ 51) 0 = - 8106479329266892 / 2 ^ 51"
    unfolding f_sub_def
    using binary64_eval[of 1 "- 8106479329266892 / 2 ^ 51 - 0"]
    by (simp add: binary64_simps)
  show ?thesis
    unfolding energy_binary64_def prod.case Let_def
      t tp tpp z1 z2 z3 c0 two a1 a b1 b c1 c ab abc fin
    by (rule refl)
qed

section \<open>The claims\<close>

subsection \<open>C1\<close>

text \<open>
  Claim C1 says that in reference-data mode the stored band energies come from the fixed
  hoppings \<open>(1.0, -0.3, 0.2)\<close> whatever tuple the constructor is given. The code stores
  the fixed triple in \<open>self.hops\<close> but passes its own argument \<open>hoppings\<close> to
  \<open>get_energies\<close>, so the claim does not hold of it: with the argument \<open>(0, 0, 0)\<close> the
  stored energy at the first grid point \<open>kx = ky = -\<pi>\<close> for the last chemical potential
  \<open>\<mu> = 0\<close> is \<open>0\<close>, and with the argument \<open>(1.0, -0.3, 0.2)\<close> it is \<open>4.4\<close>, for every
  value of the other arguments.
\<close>

theorem peters_energies_follow_argument:
  "\<exists>m m'. Model_init arcs (0, 0, 0) broadening omega mus3 resolution True flag = Inr m
         \<and> Model_init arcs (1, - 3 / 10, 2 / 10) broadening omega mus3 resolution True flag = Inr m'
         \<and> self_hops m = (1, - 3 / 10, 2 / 10) \<and> self_hops m' = (1, - 3 / 10, 2 / 10)
         \<and> self_mus m ! 4 = 0 \<and> self_mus m' ! 4 = 0
         \<and> self_k_x m ! 0 ! 0 = - pi \<and> self_k_y m ! 0 ! 0 = - pi
         \<and> self_E m ! 4 ! 0 ! 0 = 0 \<and> self_E m' ! 4 ! 0 ! 0 = 22 / 5"
proof -
  have k: "k_samples 200 ! 0 = - pi"
    using k_samples_nth[of 0 200] by simp
  have c: "cos (- pi + - pi) = 1" "cos (2 * - pi) = 1"
    by (simp_all add: cos_diff cos_double)
  show ?thesis
    unfolding Model_init_peters
    by (simp add: grid_energies_def k spec_E0_def)
qed

subsection \<open>C2\<close>

text \<open>
  Claim C2, as amended. For every model the constructor builds, the density that
  \<open>get_density\<close> returns is monotonically non-decreasing in the chemical potential:
  where one value of the sweep is at most another, so are the densities.
\<close>

theorem density_monotone:
  assumes "Model_init arcs hps broadening omega mus3 resolution peters flag = Inr m"
  shows "\<forall>a < length (self_mus m). \<forall>b < length (self_mus m).
           self_mus m ! a \<le> self_mus m ! b \<longrightarrow> get_density m ! a \<le> get_density m ! b"
proof -
  define R where "R = length (self_k_x m)"
  note e = Model_init_energies[OF assms, folded R_def]
  note dens = get_density_grid[OF e(3)]
  have n: "0 \<le> self_norm m"
    unfolding e(2) by (intro float64_nonneg) simp
  let ?F = "\<lambda>mu i j. fermi_dirac_entry 100
              (spec_E0 hps (k_samples R ! j) (k_samples R ! i) - mu)"
  have le: "float128 (self_norm m * float128_sum (tab R (?F mu)))
            \<le> float128 (self_norm m * float128_sum (tab R (?F mu')))"
    if "mu \<le> mu'" for mu mu' :: real
    using n that
    by (intro float128_mono mult_left_mono float128_sum_mono fermi_dirac_entry_antimono)
       simp_all
  show ?thesis
    unfolding dens using le by simp
qed

theorem density_monotone_witness:
  "\<exists>m. Model_init [] (1, 0, 0) 1 0 (3, 6, 2) 1 False False = Inr m
       \<and> self_mus m = [3, 5]
       \<and> self_mus m ! 0 \<le> self_mus m ! 1
       \<and> get_density m ! 0 \<le> get_density m ! 1"
proof -
  obtain m where m: "Model_init [] (1, 0, 0) 1 0 (3, 6, 2) 1 False False = Inr m"
    by (simp add: Model_init_synthetic arange_list_two_steps)
  have f: "self_mus m = [3, 5]"
    using m by (auto simp: Model_init_synthetic arange_list_two_steps)
  from density_monotone[OF m] have "get_density m ! 0 \<le> get_density m ! 1"
    unfolding f by simp
  with m f show ?thesis by simp
qed

text \<open>
  Claim C2 as stated, density non-increasing along an increasing sweep, fails: for the
  sweep \<open>[3, 5]\<close> on the one-point grid with hoppings \<open>(1, 0, 0)\<close>, where the band energy
  is \<open>4\<close>, the density at \<open>\<mu> = 3\<close> is at most \<open>1\<close> and the density at \<open>\<mu> = 5\<close> is \<open>2\<close>.
\<close>

theorem density_non_increasing_counterexample:
  "\<not> isl (Model_init [] (1, 0, 0) 1 0 (3, 6, 2) 1 False False)
   \<and> self_mus (projr (Model_init [] (1, 0, 0) 1 0 (3, 6, 2) 1 False False)) = [3, 5]
   \<and> get_density (projr (Model_init [] (1, 0, 0) 1 0 (3, 6, 2) 1 False False)) ! 0 \<le> 1
   \<and> get_density (projr (Model_init [] (1, 0, 0) 1 0 (3, 6, 2) 1 False False)) ! 1 = 2
   \<and> \<not> (get_density (projr (Model_init [] (1, 0, 0) 1 0 (3, 6, 2) 1 False False)) ! 0
          \<ge> get_density (projr (Model_init [] (1, 0, 0) 1 0 (3, 6, 2) 1 False False)) ! 1)"
proof -
  obtain m where m: "Model_init [] (1, 0, 0) 1 0 (3, 6, 2) 1 False False = Inr m"
    by (simp add: Model_init_synthetic arange_list_two_steps)
  have f: "self_mus m = [3, 5]" "self_norm m = 1"
    using m by (auto simp: Model_init_synthetic arange_list_two_steps float64_one)
  have e: "self_E m = grid_energies (1, 0, 0) 1 (self_mus m)"
    using m by (auto simp: Model_init_synthetic arange_list_two_steps)
  have d: "get_density m = [float128 (float128 (fermi_dirac_entry 100 1)),
                            float128 (float128 (fermi_dirac_entry 100 (- 1)))]"
    unfolding get_density_grid[OF e] f by (simp add: small_model float128_sum_def)
  have "float128 (float128 (fermi_dirac_entry 100 1)) \<le> float128 (float128 1)"
    by (intro float128_mono fermi_dirac_entry_half) simp
  then have lo: "get_density m ! 0 \<le> 1"
    unfolding d by simp
  have hi: "get_density m ! 1 = 2"
    unfolding d by (simp add: fermi_dirac_entry_full)
  show ?thesis
    unfolding m using f lo hi by simp
qed

subsection \<open>C3\<close>

text \<open>
  Claim C3, as amended. For every frequency, every broadening \<open>\<eta> > 0\<close> and every energy
  array of shape \<open>(M, N, N)\<close> with \<open>M \<ge> 1\<close>, \<open>get_spectral_weight\<close> returns a spectral
  weight whose entry \<open>(k, i, j)\<close> is \<open>-(1/pi) * Im(1 / (omega + i*eta - E[k][i][j]))\<close>,
  a function of the one entry of that slice, times the filter; with the flag set the
  filter is \<open>1\<close> where \<open>|buffer[i]| + |buffer[j]| \<le> pi\<close> and \<open>0\<close> elsewhere, for the samples
  \<open>buffer = linspace(-pi, pi, N)\<close>: the sum and \<open>pi\<close> are compared as the doubles they
  are, neither being rounded to two decimals.
\<close>

theorem get_spectral_weight_formula:
  assumes "0 < eta" and "E \<noteq> []" and "list_all (square (length (hd E))) E"
  shows "\<exists>A line. get_spectral_weight omega eta E flag = Inr (A, line)
       \<and> length A = length E
       \<and> linspace_float64 (- np_pi) np_pi (int (length (hd E)))
           = Inr (buffer_float64 (length (hd E)))
       \<and> (\<forall>k < length E. \<forall>i < length (hd E). \<forall>j < length (hd E).
            A ! k ! i ! j =
              (if flag
               then (if float64 (\<bar>buffer_float64 (length (hd E)) ! i\<bar>
                                 + \<bar>buffer_float64 (length (hd E)) ! j\<bar>) \<le> np_pi
                     then 1 else 0)
               else 1)
              * (- (1 / pi) * Im (1 / (of_real omega + \<i> * of_real eta - of_real (E ! k ! i ! j)))))"
proof -
  have eta: "eta \<noteq> 0"
    using assms(1) by simp
  show ?thesis
    unfolding get_spectral_weight_square[OF eta assms(2,3)]
    by (simp add: linspace_buffer_float64 spec_spectral_weight_def)
qed

text \<open>
  On a grid of seven samples the point with indices \<open>(1, 2)\<close>, which lies on the diamond
  \<open>|kx| + |ky| = \<pi>\<close>, is masked: the doubles there add up to the double next above \<open>pi\<close>.
  The centre \<open>(3, 3)\<close> is kept.
\<close>

theorem get_spectral_weight_formula_witness:
  "(0::real) < 1 \<and> [replicate 7 (replicate 7 (0::real))] \<noteq> []
   \<and> list_all (square (length (hd [replicate 7 (replicate 7 (0::real))])))
         [replicate 7 (replicate 7 0)]
   \<and> (\<exists>A line. get_spectral_weight 0 1 [replicate 7 (replicate 7 0)] True = Inr (A, line)
          \<and> A ! 0 ! 1 ! 2 = 0 \<and> A ! 0 ! 3 ! 3 = 1 / pi)
   \<and> (\<exists>A line. get_spectral_weight 0 1 [replicate 7 (replicate 7 0)] False = Inr (A, line)
          \<and> A ! 0 ! 1 ! 2 = 1 / pi)"
proof -
  have h: "(0::real) < 1" "[replicate 7 (replicate 7 (0::real))] \<noteq> []"
    "list_all (square (length (hd [replicate 7 (replicate 7 (0::real))])))
       [replicate 7 (replicate 7 0)]"
    by (simp_all add: square_def)
  have out: "\<not> float64 (\<bar>buffer_float64 7 ! 1\<bar> + \<bar>buffer_float64 7 ! 2\<bar>) \<le> np_pi"
    unfolding diamond_sum_7 by simp
  have "float64 (\<bar>buffer_float64 7 ! 3\<bar> + \<bar>buffer_float64 7 ! 3\<bar>) = 0"
    unfolding buffer_float64_7 by simp
  then have inside: "float64 (\<bar>buffer_float64 7 ! 3\<bar> + \<bar>buffer_float64 7 ! 3\<bar>) \<le> np_pi"
    using np_pi_pos by simp
  from get_spectral_weight_formula[OF h, of 0 True] obtain A line
    where a: "get_spectral_weight 0 1 [replicate 7 (replicate 7 0)] True = Inr (A, line)"
      and v: "\<forall>k < 1. \<forall>i < 7. \<forall>j < 7.
            A ! k ! i ! j =
              (if float64 (\<bar>buffer_float64 7 ! i\<bar> + \<bar>buffer_float64 7 ! j\<bar>) \<le> np_pi
               then 1 else 0)
              * (- (1 / pi) * Im (1 / (of_real 0 + \<i> * of_real 1
                    - of_real ([replicate 7 (replicate 7 (0::real))] ! k ! i ! j))))"
    by auto
  have "A ! 0 ! 1 ! 2 = 0"
    using v[rule_format, of 0 1 2] out by simp
  moreover have "A ! 0 ! 3 ! 3 = 1 / pi"
    using v[rule_format, of 0 3 3] inside by simp
  ultimately have t: "\<exists>A line. get_spectral_weight 0 1 [replicate 7 (replicate 7 0)] True
      = Inr (A, line) \<and> A ! 0 ! 1 ! 2 = 0 \<and> A ! 0 ! 3 ! 3 = 1 / pi"
    using a by blast
  from get_spectral_weight_formula[OF h, of 0 False] obtain A' line'
    where a': "get_spectral_weight 0 1 [replicate 7 (replicate 7 0)] False = Inr (A', line')"
      and v': "\<forall>k < 1. \<forall>i < 7. \<forall>j < 7.
            A' ! k ! i ! j =
              - (1 / pi) * Im (1 / (of_real 0 + \<i> * of_real 1
                    - of_real ([replicate 7 (replicate 7 (0::real))] ! k ! i ! j)))"
    by auto
  have "A' ! 0 ! 1 ! 2 = 1 / pi"
    using v'[rule_format, of 0 1 2] by simp
  then have f: "\<exists>A line. get_spectral_weight 0 1 [replicate 7 (replicate 7 0)] False
      = Inr (A, line) \<and> A ! 0 ! 1 ! 2 = 1 / pi"
    using a' by blast
  from h t f show ?thesis by blast
qed

text \<open>
  Claim C3 as stated, with the comparison rounded to two decimals, fails in both
  readings of the rounding. On \<open>1000\<close> samples the point with indices \<open>(0, 500)\<close> has
  \<open>|kx| + |ky| = 3.1447...\<close>, which rounds to \<open>3.14\<close> as \<open>\<pi>\<close> does, and the code masks
  it. On \<open>3\<close> samples the point with indices \<open>(0, 1)\<close> has \<open>|kx| + |ky| = pi\<close>, more than
  \<open>3.14\<close>, and the code keeps it.
\<close>

theorem fermi_arc_filter_rounded_counterexample:
  "\<not> isl (get_spectral_weight 0 1 [replicate 1000 (replicate 1000 0)] True)
   \<and> fst (projr (get_spectral_weight 0 1 [replicate 1000 (replicate 1000 0)] True)) ! 0 ! 0 ! 500
       \<noteq> spec_fermi_arc_filter (buffer_float64 1000 ! 500) (buffer_float64 1000 ! 0)
           * spec_spectral_weight 0 1 0
   \<and> \<not> isl (get_spectral_weight 0 1 [replicate 3 (replicate 3 0)] True)
   \<and> fst (projr (get_spectral_weight 0 1 [replicate 3 (replicate 3 0)] True)) ! 0 ! 0 ! 1
       \<noteq> spec_fermi_arc_filter_pi (buffer_float64 3 ! 1) (buffer_float64 3 ! 0)
           * spec_spectral_weight 0 1 0"
proof -
  have one: "(1::real) \<noteq> 0"
    by simp
  have out: "\<not> float64 (\<bar>buffer_float64 1000 ! 0\<bar> + \<bar>buffer_float64 1000 ! 500\<bar>) \<le> np_pi"
    unfolding buffer_float64_1000(3) by (simp add: np_pi_def)
  have "py_round (\<bar>7081319071099 / 2 ^ 51\<bar> + \<bar>- np_pi\<bar>) 2 = of_int 314 / 100"
    by (intro py_round_within) (simp_all add: np_pi_def)
  then have r: "py_round (\<bar>buffer_float64 1000 ! 500\<bar> + \<bar>buffer_float64 1000 ! 0\<bar>) 2 = 314 / 100"
    unfolding buffer_float64_1000(1,2) by simp
  have j1: "buffer_float64 3 ! Suc 0 = 0"
    using buffer_float64_3(2) by simp
  have keep: "float64 (\<bar>buffer_float64 3 ! 0\<bar> + \<bar>buffer_float64 3 ! Suc 0\<bar>) \<le> np_pi"
    unfolding buffer_float64_3 j1 using np_pi_pos by (simp add: float64_np_pi)
  obtain A1 where a: "get_spectral_weight 0 1 [replicate 1000 (replicate 1000 0)] True
                        = Inr (A1, diamond_line 1000)"
    and a0: "A1 ! 0 ! 0 ! 500 = 0"
    using out by (simp add: get_spectral_weight_square[OF one] square_def)
  obtain A2 where b: "get_spectral_weight 0 1 [replicate 3 (replicate 3 0)] True
                        = Inr (A2, diamond_line 3)"
    and b0: "A2 ! 0 ! 0 ! 1 = 1 / pi"
    using keep by (simp add: get_spectral_weight_square[OF one] square_def spec_weight_unit)
  have s1: "spec_fermi_arc_filter (buffer_float64 1000 ! 500) (buffer_float64 1000 ! 0) = 1"
    unfolding spec_fermi_arc_filter_def r py_round_pi by simp
  have s2: "spec_fermi_arc_filter_pi (buffer_float64 3 ! 1) (buffer_float64 3 ! 0) = 0"
    unfolding spec_fermi_arc_filter_pi_def buffer_float64_3 py_round_pi
    by (simp add: np_pi_def)
  have b0': "A2 ! 0 ! 0 ! Suc 0 = 1 / pi"
    using b0 by simp
  show ?thesis
    unfolding a b s1 s2 spec_weight_unit
    by (simp add: a0 b0')
qed

subsection \<open>C4\<close>

text \<open>
  Claim C4, as amended. With the filter flag false the spectral weight is unmasked: each
  entry is \<open>-(1/pi) * Im(1 / (omega + i*eta - E[k][i][j]))\<close>. The array returned alongside
  is the diamond outline, \<open>1\<close> where \<open>round(|buffer[i]| + |buffer[j]|, 2) = round(pi, 2)\<close>
  and \<open>0\<close> elsewhere, the same array that is returned when the flag is true.
\<close>

theorem get_spectral_weight_unfiltered:
  assumes "0 < eta" and "E \<noteq> []" and "list_all (square (length (hd E))) E"
  shows "\<exists>A line. get_spectral_weight omega eta E False = Inr (A, line)
       \<and> length A = length E
       \<and> (\<forall>k < length E. \<forall>i < length (hd E). \<forall>j < length (hd E).
            A ! k ! i ! j =
              - (1 / pi) * Im (1 / (of_real omega + \<i> * of_real eta - of_real (E ! k ! i ! j))))
       \<and> (\<forall>i < length (hd E). \<forall>j < length (hd E).
            line ! i ! j =
              (if py_round (float64 (\<bar>buffer_float64 (length (hd E)) ! i\<bar>
                                     + \<bar>buffer_float64 (length (hd E)) ! j\<bar>)) 2
                  = py_round np_pi 2
               then 1 else 0))
       \<and> (\<exists>A'. get_spectral_weight omega eta E True = Inr (A', line))"
proof -
  have eta: "eta \<noteq> 0"
    using assms(1) by simp
  show ?thesis
    unfolding get_spectral_weight_square[OF eta assms(2,3)]
    by (simp add: spec_spectral_weight_def diamond_line_tab)
qed

theorem get_spectral_weight_unfiltered_witness:
  "(0::real) < 1 \<and> [[[0::real]]] \<noteq> [] \<and> list_all (square (length (hd [[[0::real]]]))) [[[0]]]
   \<and> (\<exists>A line. get_spectral_weight 0 1 [[[0]]] False = Inr (A, line)
          \<and> A ! 0 ! 0 ! 0 = 1 / pi \<and> line ! 0 ! 0 = 0
          \<and> (\<exists>A'. get_spectral_weight 0 1 [[[0]]] True = Inr (A', line)))"
proof -
  have h: "(0::real) < 1" "[[[0::real]]] \<noteq> []"
    "list_all (square (length (hd [[[0::real]]]))) [[[0]]]"
    by (simp_all add: square_def)
  from get_spectral_weight_unfiltered[OF h, of 0]
  have "\<exists>A line. get_spectral_weight 0 1 [[[0]]] False = Inr (A, line)
          \<and> A ! 0 ! 0 ! 0 = 1 / pi \<and> line ! 0 ! 0 = 0
          \<and> (\<exists>A'. get_spectral_weight 0 1 [[[0]]] True = Inr (A', line))"
    using np_pi_pos
    by (auto simp: buffer_float64_1 float64_np_pi(3) py_round_two_np_pi py_round_np_pi)
  with h show ?thesis by blast
qed

text \<open>
  Claim C4 as stated, the all-ones filter array being the one returned, fails: on three
  samples the array returned with the flag false is not all ones (its centre is \<open>0\<close>).
\<close>

theorem returned_mask_all_ones_counterexample:
  "\<not> isl (get_spectral_weight 0 1 [replicate 3 (replicate 3 0)] False)
   \<and> snd (projr (get_spectral_weight 0 1 [replicate 3 (replicate 3 0)] False))
       \<noteq> replicate 3 (replicate 3 1)"
proof -
  have one: "(1::real) \<noteq> 0"
    by simp
  have j1: "buffer_float64 3 ! Suc 0 = 0"
    using buffer_float64_3(2) by simp
  have z: "py_round 0 2 = 0"
    by (simp add: py_round_def round_half_even_def)
  have "diamond_line 3 ! 1 ! 1 = 0"
    by (simp add: diamond_line_tab j1 z py_round_np_pi)
  moreover have "replicate 3 (replicate 3 (1::real)) ! 1 ! 1 = 1"
    by simp
  ultimately have "diamond_line 3 \<noteq> replicate 3 (replicate 3 1)"
    by (metis zero_neq_one)
  then show ?thesis
    by (simp add: get_spectral_weight_square[OF one] square_def)
qed

subsection \<open>C5\<close>



subsection \<open>C6\<close>

text \<open>
  Claim C6. Whatever the hoppings \<open>(t, t', t'')\<close>, the grids and the sweep, the entries of
  the energy array that \<open>get_energies\<close> returns are the band \<open>E0\<close> of the specification
  minus the chemical potential, and the entry of \<open>dE_dx\<close> at a grid point is the
  derivative of \<open>E0\<close> along \<open>kx\<close> there. A centred difference quotient of \<open>E0\<close> with
  step \<open>h\<close> differs from it by at most \<open>(|t| + 2|t'| + 8|t''|) / 3 * h\<^sup>2\<close>. The derivative
  arrays are the same for every sweep of chemical potentials.
\<close>

theorem get_energies_dE_dx_exact:
  assumes "get_energies (t, tp, tpp) kx ky mus = Inr (E, d)"
    and "i < length kx" and "j < length (kx ! i)"
  shows "(\<forall>k < length mus.
            E ! k ! i ! j = spec_E0 (t, tp, tpp) (kx ! i ! j) (ky ! i ! j) - mus ! k)
       \<and> ((\<lambda>x. spec_E0 (t, tp, tpp) x (ky ! i ! j)) has_real_derivative dE_dx d ! i ! j)
            (at (kx ! i ! j))
       \<and> (\<forall>h. h \<noteq> 0 \<longrightarrow>
            \<bar>(spec_E0 (t, tp, tpp) (kx ! i ! j + h) (ky ! i ! j)
               - spec_E0 (t, tp, tpp) (kx ! i ! j - h) (ky ! i ! j)) / (2 * h)
              - dE_dx d ! i ! j\<bar>
            \<le> (\<bar>t\<bar> + 2 * \<bar>tp\<bar> + 8 * \<bar>tpp\<bar>) / 3 * h\<^sup>2)
       \<and> (\<forall>mus'. \<exists>E'. get_energies (t, tp, tpp) kx ky mus' = Inr (E', d))"
proof -
  have ss: "same_shape kx ky"
    using assms(1) by (rule get_energies_Inr_shape)
  note ge = get_energies_pointwise[OF ss, of t tp tpp]
  have E: "E = map (\<lambda>mu. pointwise (\<lambda>x y. spec_E0 (t, tp, tpp) x y - mu) kx ky) mus"
    and d: "dE_dx d = pointwise (\<lambda>x y. 2 * (t * sin x + tp * (sin (x - y) + sin (x + y))
                                        + 2 * tpp * sin (2 * x))) kx ky"
    using assms(1) unfolding ge by auto
  have dij: "dE_dx d ! i ! j =
      2 * (t * sin (kx ! i ! j) + tp * (sin (kx ! i ! j - ky ! i ! j) + sin (kx ! i ! j + ky ! i ! j))
           + 2 * tpp * sin (2 * (kx ! i ! j)))"
    unfolding d by (simp add: pointwise_nth[OF ss assms(2,3)])
  have 1: "\<forall>k < length mus.
            E ! k ! i ! j = spec_E0 (t, tp, tpp) (kx ! i ! j) (ky ! i ! j) - mus ! k"
    unfolding E by (simp add: pointwise_nth[OF ss assms(2,3)])
  have 2: "((\<lambda>x. spec_E0 (t, tp, tpp) x (ky ! i ! j)) has_real_derivative dE_dx d ! i ! j)
            (at (kx ! i ! j))"
    unfolding dij by (rule spec_E0_deriv)
  have 3: "\<forall>h. h \<noteq> 0 \<longrightarrow>
            \<bar>(spec_E0 (t, tp, tpp) (kx ! i ! j + h) (ky ! i ! j)
               - spec_E0 (t, tp, tpp) (kx ! i ! j - h) (ky ! i ! j)) / (2 * h)
              - dE_dx d ! i ! j\<bar>
            \<le> (\<bar>t\<bar> + 2 * \<bar>tp\<bar> + 8 * \<bar>tpp\<bar>) / 3 * h\<^sup>2"
    unfolding dij using spec_E0_finite_difference by blast
  have 4: "\<forall>mus'. \<exists>E'. get_energies (t, tp, tpp) kx ky mus' = Inr (E', d)"
    using assms(1) unfolding ge by auto
  from 1 2 3 4 show ?thesis by blast
qed

theorem get_energies_dE_dx_exact_witness:
  "get_energies (1, - 3 / 10, 2 / 10) [[0]] [[0]] [0] =
     Inr ([[[- 18 / 5]]],
          \<lparr>dE_dx = [[0]], ddE_dxx = [[12 / 5]], dE_dy = [[0]], ddE_dyy = [[12 / 5]],
           ddE_dxdy = [[0]]\<rparr>)
   \<and> (0::nat) < length [[0::real]] \<and> (0::nat) < length ([[0::real]] ! 0)
   \<and> [[[- 18 / 5 :: real]]] ! 0 ! 0 ! 0 = spec_E0 (1, - 3 / 10, 2 / 10) 0 0 - [0] ! 0
   \<and> ((\<lambda>x. spec_E0 (1, - 3 / 10, 2 / 10) x 0) has_real_derivative 0) (at 0)
   \<and> \<bar>(spec_E0 (1, - 3 / 10, 2 / 10) (0 + 1) 0
         - spec_E0 (1, - 3 / 10, 2 / 10) (0 - 1) 0) / (2 * 1) - 0\<bar>
       \<le> (\<bar>1\<bar> + 2 * \<bar>- 3 / 10\<bar> + 8 * \<bar>2 / 10\<bar>) / 3 * 1\<^sup>2
   \<and> (\<exists>E'. get_energies (1, - 3 / 10, 2 / 10) [[0]] [[0]] [7, 8] =
          Inr (E', \<lparr>dE_dx = [[0]], ddE_dxx = [[12 / 5]], dE_dy = [[0]],
                    ddE_dyy = [[12 / 5]], ddE_dxdy = [[0]]\<rparr>))"
proof -
  have h: "get_energies (1, - 3 / 10, 2 / 10) [[0]] [[0]] [0] =
     Inr ([[[- 18 / 5]]],
          \<lparr>dE_dx = [[0]], ddE_dxx = [[12 / 5]], dE_dy = [[0]], ddE_dyy = [[12 / 5]],
           ddE_dxdy = [[0]]\<rparr>)"
    by (simp add: get_energies_def np_defs Let_def)
  have i: "(0::nat) < length [[0::real]]" and j: "(0::nat) < length ([[0::real]] ! 0)"
    by simp_all
  from get_energies_dE_dx_exact[OF h i j]
  have c: "(\<forall>k<length [0::real].
              [[[- 18 / 5 :: real]]] ! k ! 0 ! 0 = spec_E0 (1, - 3 / 10, 2 / 10) 0 0 - [0] ! k)
    \<and> ((\<lambda>x. spec_E0 (1, - 3 / 10, 2 / 10) x 0) has_real_derivative 0) (at 0)
    \<and> (\<forall>h. h \<noteq> 0 \<longrightarrow>
          \<bar>(spec_E0 (1, - 3 / 10, 2 / 10) (0 + h) 0
             - spec_E0 (1, - 3 / 10, 2 / 10) (0 - h) 0) / (2 * h) - 0\<bar>
          \<le> (\<bar>1\<bar> + 2 * \<bar>- 3 / 10\<bar> + 8 * \<bar>2 / 10\<bar>) / 3 * h\<^sup>2)
    \<and> (\<forall>mus'. \<exists>E'. get_energies (1, - 3 / 10, 2 / 10) [[0]] [[0]] mus' =
          Inr (E', \<lparr>dE_dx = [[0]], ddE_dxx = [[12 / 5]], dE_dy = [[0]],
                    ddE_dyy = [[12 / 5]], ddE_dxdy = [[0]]\<rparr>))"
    by simp
  have one: "(1::real) \<noteq> 0"
    by simp
  from c one h i j show ?thesis by blast
qed

subsection \<open>C7\<close>

text \<open>
  Claim C7. For every model the constructor builds (in reference-data mode: from at least
  one data array, each \<open>200 \<times> 200\<close>), \<open>sigma_ij\<close> returns for each slice \<open>A\<close> of the
  spectral weight \<open>2 * (-e)\<^sup>3 * (\<pi>\<^sup>2 / 3)\<close> times the sum over the whole grid of
  \<open>(c1 + c2 + c3) * A\<^sup>3\<close>, with \<open>c1 = -2 * dE/dx * dE/dy * d2E/dxdy\<close>,
  \<open>c2 = (dE/dx)\<^sup>2 * d2E/dy2\<close> and \<open>c3 = (dE/dy)\<^sup>2 * d2E/dx2\<close>; the sum is not divided by
  the number of grid points.
\<close>

theorem sigma_ij_formula:
  assumes "Model_init arcs hps broadening omega mus3 resolution peters flag = Inr m"
    and "peters \<longrightarrow> arcs \<noteq> [] \<and> list_all (square 200) (map snd arcs)"
  shows "sigma_ij m =
           Inr (map (\<lambda>s. 2 * (- e_charge) ^ 3 * (pi\<^sup>2 / 3) *
                  grid_sum (length (self_k_x m)) (\<lambda>i j.
                    (- 2 * dE_dx (self_dEs m) ! i ! j * dE_dy (self_dEs m) ! i ! j
                         * ddE_dxdy (self_dEs m) ! i ! j
                     + (dE_dx (self_dEs m) ! i ! j) ^ 2 * ddE_dyy (self_dEs m) ! i ! j
                     + (dE_dy (self_dEs m) ! i ! j) ^ 2 * ddE_dxx (self_dEs m) ! i ! j)
                    * (s ! i ! j) ^ 3))
                  (self_A m))"
  using sigma_ij_shapes[OF Model_init_shapes(1)[OF assms]] by simp

theorem sigma_ij_formula_witness:
  "(\<exists>m. Model_init [] (0, 0, 0) 1 0 (0, 1, 1) 1 False False = Inr m
        \<and> sigma_ij m = Inr [0])
   \<and> (\<exists>m. Model_init [] (1, 0, 0) 1 0 (0, 1, 1) 5 False False = Inr m
        \<and> sigma_ij m = Inr [64 / 375 * e_charge ^ 3 / pi])
   \<and> (\<exists>m. Model_init [(''N32'', replicate 200 (replicate 200 0))] (1, - 3 / 10, 2 / 10) 1 0
             (0, 1, 1) 1 True False = Inr m
        \<and> sigma_ij m = Inr [0])"
proof -
  have d: "False \<longrightarrow> ([] :: (string \<times> array2) list) \<noteq> [] \<and> list_all (square 200) (map snd [])"
    by simp
  obtain m where m: "Model_init [] (0, 0, 0) 1 0 (0, 1, 1) 1 False False = Inr m"
    by (simp add: small_model)
  have 1: "sigma_ij m = Inr [0]"
    using sigma_ij_formula[OF m d] m by (auto simp: small_model)
  obtain m5 where m5: "Model_init [] (1, 0, 0) 1 0 (0, 1, 1) 5 False False = Inr m5"
    and f5: "length (self_k_x m5) = 5" "self_dEs m5 = grid_derivs (1, 0, 0) 5"
      "self_A m5 = [tab 5 (\<lambda>i j. spec_spectral_weight 0 1
                     (spec_E0 (1, 0, 0) (k_samples 5 ! j) (k_samples 5 ! i) - 0))]"
    using five_model_fields by blast
  have 5: "sigma_ij m5 = Inr [64 / 375 * e_charge ^ 3 / pi]"
    unfolding sigma_ij_formula[OF m5 d] f5
    by (simp add: grid_sum_5 grid_derivs_def k_samples_5 spec_weight_broad spec_E0_def)
       (simp add: field_simps power2_eq_square power3_eq_cube)
  obtain m' where m': "Model_init [(''N32'', replicate 200 (replicate 200 0))]
      (1, - 3 / 10, 2 / 10) 1 0 (0, 1, 1) 1 True False = Inr m'"
    and f: "length (self_k_x m') = 200" "self_A m' = [replicate 200 (replicate 200 0)]"
    using peters_zero_data by blast
  have 2: "sigma_ij m' = Inr [0]"
    using sigma_ij_formula[OF m' peters_zero_data_ok] unfolding f
    by (simp add: grid_sum_zero_slice)
  from m 1 m5 5 m' 2 show ?thesis by blast
qed

subsection \<open>C8\<close>

text \<open>
  Claim C8, as amended. For every model the constructor builds on a grid of side
  \<open>R < 2\<^sup>3\<^sup>1\<close>, \<open>get_density\<close> returns one density per chemical potential of the sweep:
  \<open>norm\<close> times the sum over the \<open>R \<times> R\<close> grid of \<open>2 / (1 + exp(100 * E))\<close>, computed in
  long doubles, with \<open>norm\<close> the double nearest \<open>1 / R\<^sup>2\<close>. Each term lies in \<open>[0, 2]\<close>,
  both ends included, and each density lies in \<open>[0, 2 + 2\<^sup>-\<^sup>5\<^sup>2]\<close>.
\<close>

theorem get_density_bounds:
  assumes "Model_init arcs hps broadening omega mus3 resolution peters flag = Inr m"
    and "length (self_k_x m) < 2 ^ 31"
  shows "length (get_density m) = length (self_mus m)
       \<and> self_norm m = float64 (1 / (real (length (self_k_x m)))\<^sup>2)
       \<and> (\<forall>k < length (self_mus m).
            get_density m ! k =
              float128 (self_norm m
                * float128_sum (map (map (fermi_dirac_entry 100)) (self_E m ! k)))
          \<and> 0 \<le> get_density m ! k \<and> get_density m ! k \<le> 2 + 1 / 2 ^ 52
          \<and> (\<forall>i < length (self_k_x m). \<forall>j < length (self_k_x m).
                0 \<le> fermi_dirac_entry 100 (self_E m ! k ! i ! j)
              \<and> fermi_dirac_entry 100 (self_E m ! k ! i ! j) \<le> 2))"
proof -
  define R where "R = length (self_k_x m)"
  note e = Model_init_energies[OF assms(1), folded R_def]
  have len: "length (self_E m) = length (self_mus m)"
    unfolding e(3) by (simp add: grid_energies_def)
  have R: "real R \<le> 2 ^ 31"
    using assms(2) unfolding R_def[symmetric]
    by (metis less_imp_le of_nat_le_iff of_nat_numeral of_nat_power)
  have "real R * real R \<le> 2 ^ 31 * 2 ^ 31"
    using R by (intro mult_mono) simp_all
  then have RR: "real (R * R) \<le> 2 ^ 62"
    by simp
  then have "R * R \<le> 2 ^ 62"
    by (metis of_nat_le_iff of_nat_numeral of_nat_power)
  then have n64: "2 * (R * R) < 2 ^ 64"
    by simp
  have pos: "0 < real (R * R)"
    using e(1) by simp
  have nn: "0 \<le> self_norm m"
    unfolding e(2) by (intro float64_nonneg) simp
  have sq: "(real R)\<^sup>2 = real (R * R)"
    by (simp add: power2_eq_square)
  have "(2::real) powr (- 1022) \<le> 2 powr (- 62)"
    by (intro powr_mono) simp_all
  also have "\<dots> = 1 / 2 ^ 62"
    by (simp add: powr_minus_divide)
  also have "\<dots> \<le> 1 / real (R * R)"
    using RR pos by (intro divide_left_mono) simp_all
  finally have nu: "self_norm m \<le> 1 / real (R * R) * (1 + 1 / 2 ^ 53)"
    unfolding e(2) sq by (rule float64_rel)
  have top: "float128 (2 + 1 / 2 ^ 52) = 2 + 1 / 2 ^ 52"
    by (rule float128_exact[of _ "2 ^ 53 + 1" "- 52"]) (simp_all add: powr_minus_divide)
  have "get_density m ! k =
          float128 (self_norm m * float128_sum (map (map (fermi_dirac_entry 100)) (self_E m ! k)))
      \<and> 0 \<le> get_density m ! k \<and> get_density m ! k \<le> 2 + 1 / 2 ^ 52"
    if k: "k < length (self_mus m)" for k
  proof -
    define f where "f = (\<lambda>i j. fermi_dirac_entry 100
        (spec_E0 hps (k_samples R ! j) (k_samples R ! i) - self_mus m ! k))"
    have slice: "map (map (fermi_dirac_entry 100)) (self_E m ! k) = tab R f"
      unfolding e(3) f_def using k by (simp add: grid_energies_def tab_unop)
    have 1: "get_density m ! k =
        float128 (self_norm m * float128_sum (map (map (fermi_dirac_entry 100)) (self_E m ! k)))"
      using k len by (intro get_density_nth) simp
    have b: "0 \<le> f i j \<and> f i j \<le> 2" for i j
      unfolding f_def using fermi_dirac_entry_bounds by blast
    have s: "0 \<le> float128_sum (tab R f)" "float128_sum (tab R f) \<le> 2 * real (R * R)"
      using float128_sum_bounds[of R f] b n64 by blast+
    have "0 \<le> self_norm m * float128_sum (tab R f)"
      using nn s(1) by simp
    then have lo: "0 \<le> float128 (self_norm m * float128_sum (tab R f))"
      by (rule float128_nonneg)
    have "self_norm m * float128_sum (tab R f)
          \<le> 1 / real (R * R) * (1 + 1 / 2 ^ 53) * (2 * real (R * R))"
      using nu s nn by (intro mult_mono) simp_all
    also have "\<dots> = 2 + 1 / 2 ^ 52"
      using e(1) by (simp add: field_simps)
    finally have "float128 (self_norm m * float128_sum (tab R f)) \<le> float128 (2 + 1 / 2 ^ 52)"
      by (rule float128_mono)
    then have hi: "float128 (self_norm m * float128_sum (tab R f)) \<le> 2 + 1 / 2 ^ 52"
      unfolding top .
    from 1 lo hi show ?thesis
      unfolding slice by simp
  qed
  moreover have "length (get_density m) = length (self_mus m)"
    using len by (simp add: get_density_def)
  ultimately show ?thesis
    unfolding R_def[symmetric] using e(2) fermi_dirac_entry_bounds by blast
qed

text \<open>
  On a grid of five samples with hoppings \<open>(0, 0, 0)\<close> and the chemical potential \<open>4\<close>
  every energy is \<open>-4\<close>, every term is \<open>2\<close>, their sum is \<open>50\<close>, \<open>norm\<close> is the double
  \<open>0.04\<close>, which is above \<open>1 / 25\<close>, and the density is \<open>2 + 3 / 2\<^sup>5\<^sup>6\<close>.
\<close>

theorem get_density_bounds_witness:
  "\<exists>m. Model_init [] (0, 0, 0) 1 0 (4, 5, 1) 5 False False = Inr m
       \<and> length (self_k_x m) < 2 ^ 31
       \<and> length (get_density m) = 1
       \<and> self_norm m = 5764607523034235 / 2 ^ 57
       \<and> get_density m ! 0 = 2 + 3 / 2 ^ 56
       \<and> 0 \<le> get_density m ! 0 \<and> get_density m ! 0 \<le> 2 + 1 / 2 ^ 52
       \<and> self_E m ! 0 ! 0 ! 0 = - 4
       \<and> 0 \<le> fermi_dirac_entry 100 (self_E m ! 0 ! 0 ! 0)
       \<and> fermi_dirac_entry 100 (self_E m ! 0 ! 0 ! 0) \<le> 2"
proof -
  obtain m where m: "Model_init [] (0, 0, 0) 1 0 (4, 5, 1) 5 False False = Inr m"
    and f: "length (self_k_x m) = 5" "self_mus m = [4]"
      "self_E m = grid_energies (0, 0, 0) 5 [4]" "self_norm m = float64 (1 / 25)"
    using full_band_model[of 5 4] by auto
  have r: "length (self_k_x m) < 2 ^ 31"
    unfolding f by simp
  have n: "self_norm m = 5764607523034235 / 2 ^ 57"
    unfolding f using float64_eval[of "- 5" "1 / 25"] by (simp add: float_simps)
  have d: "get_density m = [float128 (self_norm m * (2 * real (5 * 5)))]"
    using full_band_density[OF f(3,2)] by simp
  have "float128 (5764607523034235 / 2 ^ 57 * (2 * real (5 * 5))) = 2 + 3 / 2 ^ 56"
    using float128_exact[of "2 + 3 / 2 ^ 56" "2 ^ 57 + 3" "- 56"] by (simp add: powr_minus_divide)
  then have v: "get_density m ! 0 = 2 + 3 / 2 ^ 56"
    unfolding d n by simp
  have e0: "self_E m ! 0 ! 0 ! 0 = - 4"
    unfolding f by (simp add: grid_energies_def spec_E0_def)
  note b = get_density_bounds[OF m r]
  have k: "0 < length (self_mus m)" and i: "0 < length (self_k_x m)"
    unfolding f by simp_all
  have l: "length (get_density m) = 1"
    using b f(2) by simp
  from b k have d: "0 \<le> get_density m ! 0" "get_density m ! 0 \<le> 2 + 1 / 2 ^ 52"
    by blast+
  from b k i have t: "0 \<le> fermi_dirac_entry 100 (self_E m ! 0 ! 0 ! 0)"
    "fermi_dirac_entry 100 (self_E m ! 0 ! 0 ! 0) \<le> 2"
    by blast+
  from m r l n v d e0 t show ?thesis by blast
qed

text \<open>
  Claim C8 as stated fails at both bounds. With the default resolution \<open>600\<close>, hoppings
  \<open>(0, 0, 0)\<close> and the chemical potential \<open>4\<close> the band is full: every term is \<open>2\<close>, not
  less, \<open>norm\<close> is a double above \<open>1 / 360000\<close>, and the density is \<open>2 + 221 / 2\<^sup>6\<^sup>1\<close>, more
  than \<open>2\<close>. With the chemical potential \<open>-200\<close> every energy is \<open>200\<close>, \<open>exp\<close> overflows,
  and every term is \<open>0\<close>, not more.
\<close>

theorem density_above_two_counterexample:
  "\<not> isl (Model_init [] (0, 0, 0) 1 0 (4, 5, 1) 600 False False)
   \<and> get_density (projr (Model_init [] (0, 0, 0) 1 0 (4, 5, 1) 600 False False))
       = [2 + 221 / 2 ^ 61]
   \<and> \<not> get_density (projr (Model_init [] (0, 0, 0) 1 0 (4, 5, 1) 600 False False)) ! 0 \<le> 2
   \<and> self_E (projr (Model_init [] (0, 0, 0) 1 0 (4, 5, 1) 600 False False)) ! 0 ! 0 ! 0 = - 4
   \<and> \<not> fermi_dirac_entry 100 (- 4) < 2
   \<and> \<not> isl (Model_init [] (0, 0, 0) 1 0 (- 200, - 199, 1) 1 False False)
   \<and> self_E (projr (Model_init [] (0, 0, 0) 1 0 (- 200, - 199, 1) 1 False False)) ! 0 ! 0 ! 0
       = 200
   \<and> \<not> 0 < fermi_dirac_entry 100 200"
proof -
  obtain m where m: "Model_init [] (0, 0, 0) 1 0 (4, 5, 1) 600 False False = Inr m"
    and f: "length (self_k_x m) = 600" "self_mus m = [4]"
      "self_E m = grid_energies (0, 0, 0) 600 [4]" "self_norm m = float64 (1 / 360000)"
    using full_band_model[of 600 4] by auto
  have n: "self_norm m = 819855292164869 / 2 ^ 68"
    unfolding f using float64_eval[of "- 19" "1 / 360000"] by (simp add: float_simps)
  have d: "get_density m = [float128 (self_norm m * (2 * real (600 * 600)))]"
    using full_band_density[OF f(3,2)] by simp
  have "float128 (819855292164869 / 2 ^ 68 * (2 * real (600 * 600))) = 2 + 221 / 2 ^ 61"
    using float128_exact[of "2 + 221 / 2 ^ 61" "2 ^ 62 + 221" "- 61"]
    by (simp add: powr_minus_divide)
  then have v: "get_density m = [2 + 221 / 2 ^ 61]"
    unfolding d n by simp
  have e0: "self_E m ! 0 ! 0 ! 0 = - 4"
    unfolding f by (simp add: grid_energies_def spec_E0_def)
  have t2: "\<not> fermi_dirac_entry 100 (- 4) < 2"
    using fermi_dirac_entry_full[of "- 4"] by simp
  obtain m' where m': "Model_init [] (0, 0, 0) 1 0 (- 200, - 199, 1) 1 False False = Inr m'"
    and f': "self_E m' = grid_energies (0, 0, 0) 1 [- 200]"
    using full_band_model[of 1 "- 200"] by auto
  have e1: "self_E m' ! 0 ! 0 ! 0 = 200"
    unfolding f' by (simp add: grid_energies_def spec_E0_def)
  have t0: "\<not> 0 < fermi_dirac_entry 100 200"
    using fermi_dirac_entry_empty[of 200] by simp
  show ?thesis
    unfolding m m' using v e0 t2 e1 t0 by simp
qed

subsection \<open>C9\<close>

text \<open>
  Claim C9, as amended. With hoppings \<open>(1.0, -0.3, 0.2)\<close> and \<open>\<mu> = 0.0\<close> the band energy
  at \<open>kx = ky = 0\<close> is \<open>-3.6\<close> in exact arithmetic. In binary64, in the order in which
  the source evaluates it, the result is the double \<open>-3.5999999999999996\<close>
  (\<open>-8106479329266892 / 2\<^sup>5\<^sup>1\<close>), the neighbour of the double that \<open>-3.6\<close> denotes, one
  unit in the last place (\<open>2\<^sup>-\<^sup>5\<^sup>1\<close>) above it.
\<close>

theorem band_energy_at_origin:
  "(\<exists>d. get_energies (1, - 3 / 10, 2 / 10) [[0]] [[0]] [0] = Inr ([[[- 36 / 10]]], d))
   \<and> energy_binary64 (binary64 1, binary64 (- 3 / 10), binary64 (2 / 10)) 0 0 0
       = - 8106479329266892 / 2 ^ 51
   \<and> energy_binary64 (binary64 1, binary64 (- 3 / 10), binary64 (2 / 10)) 0 0 0
       - binary64 (- 36 / 10) = 1 / 2 ^ 51"
proof -
  have "\<exists>d. get_energies (1, - 3 / 10, 2 / 10) [[0]] [[0]] [0] = Inr ([[[- 36 / 10]]], d)"
    by (simp add: get_energies_def np_defs Let_def)
  moreover have "energy_binary64 (binary64 1, binary64 (- 3 / 10), binary64 (2 / 10)) 0 0 0
       - binary64 (- 36 / 10) = 1 / 2 ^ 51"
    unfolding energy_binary64_origin binary64_literal_36 by simp
  ultimately show ?thesis
    using energy_binary64_origin by blast
qed

text \<open>
  Claim C9 as stated fails for the doubles the program computes with: the value
  computed at the origin is not the double \<open>-3.6\<close>.
\<close>

theorem band_energy_at_origin_counterexample:
  "energy_binary64 (binary64 1, binary64 (- 3 / 10), binary64 (2 / 10)) 0 0 0
     \<noteq> binary64 (- 36 / 10)"
  unfolding energy_binary64_origin binary64_literal_36 by simp

subsection \<open>C10\<close>

text \<open>
  Claim C10. For every model the constructor builds (in reference-data mode: from at
  least one data array, each \<open>200 \<times> 200\<close>) and every string other than \<open>"x"\<close> and \<open>"y"\<close>,
  \<open>sigma_ii\<close> raises \<open>UnboundLocalError\<close>, its local \<open>dE\<close> never having been assigned;
  for \<open>"x"\<close> and for \<open>"y"\<close> it returns one conductivity per slice.
\<close>

theorem sigma_ii_unbound_local:
  assumes "Model_init arcs hps broadening omega mus3 resolution peters flag = Inr m"
    and "peters \<longrightarrow> arcs \<noteq> [] \<and> list_all (square 200) (map snd arcs)"
  shows "(\<forall>variable. variable \<noteq> ''x'' \<and> variable \<noteq> ''y'' \<longrightarrow>
            sigma_ii m variable = Inl UnboundLocalError)
       \<and> (\<exists>s. sigma_ii m ''x'' = Inr s \<and> length s = length (self_A m))
       \<and> (\<exists>s. sigma_ii m ''y'' = Inr s \<and> length s = length (self_A m))"
proof -
  note sh = Model_init_shapes(1)[OF assms]
  have "\<forall>variable. variable \<noteq> ''x'' \<and> variable \<noteq> ''y'' \<longrightarrow>
            sigma_ii m variable = Inl UnboundLocalError"
    by (simp add: sigma_ii_def)
  then show ?thesis
    using sigma_ii_shapes[OF sh] by simp
qed

theorem sigma_ii_unbound_local_witness:
  "(\<exists>m. Model_init [] (1, 0, 0) 1 0 (0, 1, 1) 1 False False = Inr m
       \<and> sigma_ii m ''z'' = Inl UnboundLocalError
       \<and> sigma_ii m ''xy'' = Inl UnboundLocalError
       \<and> (\<exists>s. sigma_ii m ''x'' = Inr s \<and> length s = 1)
       \<and> (\<exists>s. sigma_ii m ''y'' = Inr s \<and> length s = 1))
   \<and> (\<exists>m. Model_init [(''N32'', replicate 200 (replicate 200 0))] (1, - 3 / 10, 2 / 10) 1 0
             (0, 1, 1) 1 True False = Inr m
       \<and> sigma_ii m ''X'' = Inl UnboundLocalError
       \<and> (\<exists>s. sigma_ii m ''x'' = Inr s \<and> length s = 1)
       \<and> (\<exists>s. sigma_ii m ''y'' = Inr s \<and> length s = 1))"
proof -
  obtain m where m: "Model_init [] (1, 0, 0) 1 0 (0, 1, 1) 1 False False = Inr m"
    by (simp add: small_model)
  have d: "False \<longrightarrow> ([] :: (string \<times> array2) list) \<noteq> [] \<and> list_all (square 200) (map snd [])"
    by simp
  have A: "length (self_A m) = 1"
    using m by (auto simp: small_model)
  have z: "''z'' \<noteq> ''x'' \<and> ''z'' \<noteq> ''y''" and xy: "''xy'' \<noteq> ''x'' \<and> ''xy'' \<noteq> ''y''"
    and e: "''X'' \<noteq> ''x'' \<and> ''X'' \<noteq> ''y''"
    by simp_all
  from sigma_ii_unbound_local[OF m d] z xy A have 1:
    "sigma_ii m ''z'' = Inl UnboundLocalError \<and> sigma_ii m ''xy'' = Inl UnboundLocalError
       \<and> (\<exists>s. sigma_ii m ''x'' = Inr s \<and> length s = 1)
       \<and> (\<exists>s. sigma_ii m ''y'' = Inr s \<and> length s = 1)"
    by (metis (no_types, lifting))
  obtain m' where m': "Model_init [(''N32'', replicate 200 (replicate 200 0))]
      (1, - 3 / 10, 2 / 10) 1 0 (0, 1, 1) 1 True False = Inr m'"
    and f: "length (self_k_x m') = 200" "self_A m' = [replicate 200 (replicate 200 0)]"
    using peters_zero_data by blast
  have A': "length (self_A m') = 1"
    unfolding f by simp
  from sigma_ii_unbound_local[OF m' peters_zero_data_ok] e A' have 2:
    "sigma_ii m' ''X'' = Inl UnboundLocalError
       \<and> (\<exists>s. sigma_ii m' ''x'' = Inr s \<and> length s = 1)
       \<and> (\<exists>s. sigma_ii m' ''y'' = Inr s \<and> length s = 1)"
    by (metis (no_types, lifting))
  from m 1 m' 2 show ?thesis by blast
qed

end
